theory Spec2Isabelle
  imports Complex_Main "HOL-Library.Word" "HOL-Library.AList" "HOL-Library.Sublist"
    "HOL-Library.Log_Nat"
begin

unbundle bit_operations_syntax

section \<open>Entity model\<close>

text \<open>
  Instants (Go's \<open>time.Time\<close>) are integers: nanoseconds since the Unix epoch.
  \<open>Unix()\<close> is the number of whole seconds, \<open>Round(time.Second)\<close> goes to the
  nearest second with halfway values rounded up, \<open>UTC()\<close> keeps the instant and
  \<open>Equal\<close> compares instants.
\<close>

definition time_Unix :: "int \<Rightarrow> int" where
  "time_Unix t = t div 1000000000"

definition time_Round_Second :: "int \<Rightarrow> int" where
  "time_Round_Second t =
     (let r = t mod 1000000000
      in if r + r < 1000000000 then t - r else t + (1000000000 - r))"

definition time_UTC :: "int \<Rightarrow> int" where
  "time_UTC t = t"

definition time_Equal :: "int \<Rightarrow> int \<Rightarrow> bool" where
  "time_Equal t u = (t = u)"

datatype Operation = OpNone | OpAdd | OpDelete | OpMod | OpModConflict

definition DifferNone :: int where "DifferNone = 0"
definition DifferDirType :: int where "DifferDirType = push_bit 1 1"
definition DifferMd5Checksum :: int where "DifferMd5Checksum = push_bit 2 1"
definition DifferModTime :: int where "DifferModTime = push_bit 3 1"
definition DifferSize :: int where "DifferSize = push_bit 4 1"

definition DriveFolderMimeType :: string where
  "DriveFolderMimeType = ''application/vnd.google-apps.folder''"

text \<open>
  The \<open>File\<close> struct. The two permission fields point into the remote API's own
  types and are left out; \<open>Id\<close> is \<open>Id_file\<close> here.
\<close>

record File =
  AlternateLink :: string
  BlobAt :: string
  Copyable :: bool
  ExportLinks :: "(string \<times> string) list"
  Id_file :: string
  IsDir :: bool
  Md5Checksum :: string
  MimeType :: string
  ModTime :: int
  Name :: string
  Size :: int
  Etag :: string
  Shared :: bool
  CacheChecksum :: bool
  Version :: int
  OwnerNames :: "string list"

record Change =
  Dest :: "File option"
  Parent :: string
  Path :: string
  Src :: "File option"
  Force :: bool
  NoClobber :: bool
  IgnoreConflict :: bool
  IgnoreChecksum :: bool

section \<open>Difference classifier\<close>

text \<open>
  The local disk as \<open>md5Checksum\<close> sees it: a path is mapped to the hex digest of
  the bytes behind it, or to \<open>None\<close> when opening or reading it fails.
\<close>

type_synonym blobs = "string \<Rightarrow> string option"

text \<open>
  \<open>md5Checksum\<close> returns the checksum, the file as the call leaves it (the digest
  is stored when \<open>CacheChecksum\<close> is set) and the paths it called \<open>os.Open\<close> on.
  The notice printed for a large file is not modelled.
\<close>

definition md5Checksum :: "blobs \<Rightarrow> File option \<Rightarrow> string \<times> File option \<times> string list" where
  "md5Checksum fs fo =
     (case fo of
        None \<Rightarrow> ('''', None, [])
      | Some f \<Rightarrow>
          if IsDir f then ('''', Some f, [])
          else if Md5Checksum f \<noteq> '''' then (Md5Checksum f, Some f, [])
          else (case fs (BlobAt f) of
                  None \<Rightarrow> ('''', Some f, [BlobAt f])
                | Some checksum \<Rightarrow>
                    (checksum,
                     Some (if CacheChecksum f then f\<lparr>Md5Checksum := checksum\<rparr> else f),
                     [BlobAt f])))"

definition checksumDiffers :: "int \<Rightarrow> bool" where
  "checksumDiffers msk = (msk AND DifferMd5Checksum \<noteq> 0)"

definition dirTypeDiffers :: "int \<Rightarrow> bool" where
  "dirTypeDiffers msk = (msk AND DifferDirType \<noteq> 0)"

definition modTimeDiffers :: "int \<Rightarrow> bool" where
  "modTimeDiffers msk = (msk AND DifferModTime \<noteq> 0)"

definition sizeDiffers :: "int \<Rightarrow> bool" where
  "sizeDiffers msk = (msk AND DifferSize \<noteq> 0)"

text \<open>
  \<open>fileDifferences\<close> returns the mask, both operands as the checksum calls leave
  them, and the paths opened on the way, in order.
\<close>

definition fileDifferences ::
  "blobs \<Rightarrow> File option \<Rightarrow> File option \<Rightarrow> bool \<Rightarrow> int \<times> File option \<times> File option \<times> string list" where
  "fileDifferences fs src dest ignoreChecksum =
     (case (src, dest) of
        (Some s, Some d) \<Rightarrow>
          (let difference = DifferNone;
               difference = (if Size s \<noteq> Size d then difference OR DifferSize else difference);
               difference = (if \<not> time_Equal (ModTime s) (ModTime d)
                             then difference OR DifferModTime else difference);
               difference = (if IsDir s \<noteq> IsDir d then difference OR DifferDirType else difference)
           in if ignoreChecksum \<and> sizeDiffers difference
              then (difference OR DifferMd5Checksum, src, dest, [])
              else if sizeDiffers difference
              then (difference OR DifferMd5Checksum, src, dest, [])
              else (case md5Checksum fs src of (cs, src', o1) \<Rightarrow>
                    (case md5Checksum fs dest of (cd, dest', o2) \<Rightarrow>
                      (if cs \<noteq> cd then difference OR DifferMd5Checksum else difference,
                       src', dest', o1 @ o2))))
      | _ \<Rightarrow> (DifferMd5Checksum OR DifferSize OR DifferModTime OR DifferDirType, src, dest, []))"

section \<open>Operation of a change\<close>

text \<open>
  \<open>op\<close> is the raw operation and \<open>Op\<close> the one after the policy flags. Both
  return the change as the call leaves it, since the classifier may store a
  checksum in either side.
\<close>

definition op :: "blobs \<Rightarrow> Change \<Rightarrow> Operation \<times> Change" where
  "op fs c =
     (case (Src c, Dest c) of
        (None, None) \<Rightarrow> (OpNone, c)
      | (Some s, None) \<Rightarrow> (OpAdd, c)
      | (None, Some d) \<Rightarrow> (OpDelete, c)
      | (Some s, Some d) \<Rightarrow>
          if IsDir s \<noteq> IsDir d then (OpMod, c)
          else if IsDir s then (OpNone, c)
          else (case fileDifferences fs (Src c) (Dest c) (IgnoreChecksum c) of
                  (msk, s', d', opened) \<Rightarrow>
                    (let c' = c\<lparr>Src := s', Dest := d'\<rparr>
                     in if sizeDiffers msk \<or> checksumDiffers msk
                        then (if IgnoreConflict c then (OpMod, c') else (OpModConflict, c'))
                        else if modTimeDiffers msk then (OpMod, c')
                        else (OpNone, c'))))"

definition Op :: "blobs \<Rightarrow> Change \<Rightarrow> Operation \<times> Change" where
  "Op fs c =
     (case op fs c of
        (opr, c') \<Rightarrow>
          if Force c then (if opr = OpModConflict then (OpMod, c') else (OpAdd, c'))
          else if opr \<noteq> OpAdd \<and> NoClobber c then (OpNone, c')
          else (opr, c'))"

section \<open>Conflict resolver\<close>

text \<open>
  Failures that the Go runtime or the collaborators raise are values here.
\<close>

datatype error =
    NilDereference
  | ErrIgnored string
  | ErrStat string
  | ErrReadDir string
  | ErrAbout string
  | ErrQuotaBytesTotal

text \<open>The persisted index record (\<open>config.Index\<close>), with the fields \<open>ToIndex\<close> fills.\<close>

record Index =
  FileId :: string
  Etag_index :: string
  Md5Checksum_index :: string
  MimeType_index :: string
  ModTime_index :: int
  Version_index :: int

definition ToIndex :: "File \<Rightarrow> Index" where
  "ToIndex f =
     \<lparr>FileId = Id_file f, Etag_index = Etag f, Md5Checksum_index = Md5Checksum f,
      MimeType_index = MimeType f, ModTime_index = time_Unix (ModTime f),
      Version_index = Version f\<rparr>"

text \<open>
  \<open>conflict\<close> reads \<open>src.ModTime\<close> without a nil check; a nil \<open>src\<close> that reaches
  that line is the error \<open>NilDereference\<close>.
\<close>

definition conflict :: "File option \<Rightarrow> File option \<Rightarrow> Index option \<Rightarrow> bool \<Rightarrow> error + bool" where
  "conflict src dest index push =
     (case index of
        None \<Rightarrow> Inr False
      | Some ix \<Rightarrow>
          if push \<and> (case dest of None \<Rightarrow> False
                      | Some d \<Rightarrow> time_Unix (ModTime d) = ModTime_index ix)
          then Inr False
          else (case src of
                  None \<Rightarrow> Inl NilDereference
                | Some s \<Rightarrow>
                    (let rounded = time_Round_Second (time_UTC (ModTime s))
                     in if time_Unix rounded \<noteq> ModTime_index ix
                           \<and> Md5Checksum s \<noteq> Md5Checksum_index ix
                        then Inr True
                        else Inr False)))"

text \<open>
  The loop of \<open>resolveConflicts\<close>, with the two result slices as accumulators.
  \<open>ch.Op()\<close> runs on the shared change, so the entry appended to \<open>resolved\<close> is
  the change as that call leaves it.
\<close>

fun resolveConflicts_loop ::
  "blobs \<Rightarrow> Change list \<Rightarrow> bool \<Rightarrow> (string \<Rightarrow> Index option) \<Rightarrow> Change list \<Rightarrow> Change list
     \<Rightarrow> error + (Change list \<times> Change list)" where
  "resolveConflicts_loop fs [] push indexFiler resolved unresolved = Inr (resolved, unresolved)"
| "resolveConflicts_loop fs (ch # rest) push indexFiler resolved unresolved =
     (let l = (if push then Src ch else Dest ch);
          r = (if push then Dest ch else Src ch);
          fileId = '''';
          fileId = (case l of Some lf \<Rightarrow> Id_file lf | None \<Rightarrow> fileId);
          fileId = (if fileId = '''' then (case r of Some rf \<Rightarrow> Id_file rf | None \<Rightarrow> fileId)
                    else fileId)
      in case conflict l r (indexFiler fileId) push of
           Inl e \<Rightarrow> Inl e
         | Inr cf \<Rightarrow>
             if \<not> cf
             then (case Op fs ch of
                     (opr, ch') \<Rightarrow>
                       resolveConflicts_loop fs rest push indexFiler
                         (resolved @ [if opr = OpModConflict then ch'\<lparr>IgnoreConflict := True\<rparr> else ch'])
                         unresolved)
             else resolveConflicts_loop fs rest push indexFiler resolved (unresolved @ [ch]))"

definition resolveConflicts ::
  "blobs \<Rightarrow> Change list \<Rightarrow> bool \<Rightarrow> (string \<Rightarrow> Index option)
     \<Rightarrow> error + (Change list \<times> Change list)" where
  "resolveConflicts fs conflicts push indexFiler =
     (if length conflicts < 1 then Inr ([], [])
      else resolveConflicts_loop fs conflicts push indexFiler [] [])"

subsection \<open>The classification as the specification words it\<close>

definition local_side :: "bool \<Rightarrow> Change \<Rightarrow> File option" where
  "local_side push ch = (if push then Src ch else Dest ch)"

definition remote_side :: "bool \<Rightarrow> Change \<Rightarrow> File option" where
  "remote_side push ch = (if push then Dest ch else Src ch)"

definition index_key :: "bool \<Rightarrow> Change \<Rightarrow> string" where
  "index_key push ch =
     (case local_side push ch of
        Some lf \<Rightarrow> (if Id_file lf \<noteq> '''' then Id_file lf
                    else (case remote_side push ch of Some rf \<Rightarrow> Id_file rf | None \<Rightarrow> ''''))
      | None \<Rightarrow> (case remote_side push ch of Some rf \<Rightarrow> Id_file rf | None \<Rightarrow> ''''))"

text \<open>
  The three clauses as the specification lists them: no record; on push the
  remote side's seconds equal the record's; the rounded time of \<open>src\<close> (the
  first operand of \<open>conflict\<close>, the local side) equals the record's
  \<^emph>\<open>and\<close> its checksum equals the record's.
\<close>

definition spurious_spec :: "bool \<Rightarrow> (string \<Rightarrow> Index option) \<Rightarrow> Change \<Rightarrow> bool" where
  "spurious_spec push indexFiler ch =
     (case indexFiler (index_key push ch) of
        None \<Rightarrow> True
      | Some ix \<Rightarrow>
          (push \<and> (case remote_side push ch of None \<Rightarrow> False
                    | Some rf \<Rightarrow> time_Unix (ModTime rf) = ModTime_index ix))
          \<or> (case local_side push ch of None \<Rightarrow> False
              | Some lf \<Rightarrow>
                  time_Unix (time_Round_Second (time_UTC (ModTime lf))) = ModTime_index ix
                  \<and> Md5Checksum lf = Md5Checksum_index ix))"

text \<open>The same with the third clause a disjunction: either agreement is enough.\<close>

definition spurious_either :: "bool \<Rightarrow> (string \<Rightarrow> Index option) \<Rightarrow> Change \<Rightarrow> bool" where
  "spurious_either push indexFiler ch =
     (case indexFiler (index_key push ch) of
        None \<Rightarrow> True
      | Some ix \<Rightarrow>
          (push \<and> (case remote_side push ch of None \<Rightarrow> False
                    | Some rf \<Rightarrow> time_Unix (ModTime rf) = ModTime_index ix))
          \<or> (case local_side push ch of None \<Rightarrow> False
              | Some lf \<Rightarrow>
                  time_Unix (time_Round_Second (time_UTC (ModTime lf))) = ModTime_index ix
                  \<or> Md5Checksum lf = Md5Checksum_index ix))"

definition mark_resolved :: "blobs \<Rightarrow> Change \<Rightarrow> Change" where
  "mark_resolved fs ch = (snd (Op fs ch))\<lparr>IgnoreConflict := True\<rparr>"

section \<open>Directory merger\<close>

record dirList =
  remote :: "File option"
  local_f :: "File option"

text \<open>\<open>Name\<close> of a pair reads \<open>d.local.Name\<close> when \<open>remote\<close> is nil, with no nil check.\<close>

definition dirList_Name :: "dirList \<Rightarrow> error + string" where
  "dirList_Name d =
     (case remote d of
        Some r \<Rightarrow> Inr (Name r)
      | None \<Rightarrow> (case local_f d of Some l \<Rightarrow> Inr (Name l) | None \<Rightarrow> Inl NilDereference))"

text \<open>
  Modelled from the spec: the name-indexed container (the \<open>asciitrie\<close> package
  that \<open>merge\<close> imports is not among the sources). It holds one entry per name,
  here as a list of name/entry pairs with no name twice.
\<close>

type_synonym trie = "(string \<times> File) list"

text \<open>Modelled from the spec: \<open>New\<close>, the empty container.\<close>

definition trie_New :: trie where
  "trie_New = []"

text \<open>
  Modelled from the spec: \<open>Set\<close> stores an entry under a name and hands back the
  entry it displaced, if there was one.
\<close>

definition trie_Set :: "trie \<Rightarrow> string \<Rightarrow> File \<Rightarrow> trie \<times> File option" where
  "trie_Set t k v = (AList.update k v t, map_of t k)"

text \<open>Modelled from the spec: \<open>Get\<close> looks a name up.\<close>

definition trie_Get :: "trie \<Rightarrow> string \<Rightarrow> File option" where
  "trie_Get t k = map_of t k"

text \<open>Modelled from the spec: \<open>Pop\<close> removes a name.\<close>

definition trie_Pop :: "trie \<Rightarrow> string \<Rightarrow> trie" where
  "trie_Pop t k = AList.delete k t"

text \<open>
  Modelled from the spec: \<open>Walk\<close> yields the entries that remain, each once. The
  order is the package's own; here it is the order of the list, and nothing
  below depends on it.
\<close>

definition trie_Walk :: "trie \<Rightarrow> File list" where
  "trie_Walk t = map snd t"

text \<open>The first loop of \<open>merge\<close>: every local child goes into \<open>localsTrie\<close>.\<close>

fun merge_locals :: "File list \<Rightarrow> trie \<Rightarrow> trie" where
  "merge_locals [] localsTrie = localsTrie"
| "merge_locals (l # locals) localsTrie =
     merge_locals locals (fst (trie_Set localsTrie (Name l) l))"

text \<open>
  The second loop: the state is the two containers, \<open>merged\<close> and the clashes.
  With \<open>ignoreClashes\<close> set the remote container is never touched.
\<close>

fun merge_remotes ::
  "File list \<Rightarrow> bool \<Rightarrow> trie \<Rightarrow> trie \<Rightarrow> dirList list \<Rightarrow> File list
     \<Rightarrow> dirList list \<times> File list \<times> trie" where
  "merge_remotes [] ignoreClashes localsTrie remotesTrie merged clashesChan =
     (merged, clashesChan, localsTrie)"
| "merge_remotes (r # remotes) ignoreClashes localsTrie remotesTrie merged clashesChan =
     (case (if \<not> ignoreClashes then trie_Set remotesTrie (Name r) r else (remotesTrie, None)) of
        (remotesTrie', Some evictedFile) \<Rightarrow>
          merge_remotes remotes ignoreClashes localsTrie remotesTrie' merged
            (clashesChan @ [evictedFile])
      | (remotesTrie', None) \<Rightarrow>
          (case trie_Get localsTrie (Name r) of
             Some l \<Rightarrow>
               merge_remotes remotes ignoreClashes (trie_Pop localsTrie (Name r)) remotesTrie'
                 (merged @ [\<lparr>remote = Some r, local_f = Some l\<rparr>]) clashesChan
           | None \<Rightarrow>
               merge_remotes remotes ignoreClashes localsTrie remotesTrie'
                 (merged @ [\<lparr>remote = Some r, local_f = None\<rparr>]) clashesChan))"

definition merge :: "File list \<Rightarrow> File list \<Rightarrow> bool \<Rightarrow> dirList list \<times> File list" where
  "merge remotes locals ignoreClashes =
     (case merge_remotes remotes ignoreClashes (merge_locals locals trie_New) trie_New [] [] of
        (merged, clashesChan, localsTrie) \<Rightarrow>
          (merged @ map (\<lambda>l. \<lparr>remote = None, local_f = Some l\<rparr>) (trie_Walk localsTrie),
           clashesChan))"

text \<open>The local entry a name ends up with: the last local child that carries it.\<close>

definition local_named :: "File list \<Rightarrow> string \<Rightarrow> File option" where
  "local_named locals n = find (\<lambda>l. Name l = n) (rev locals)"

section \<open>Local files and the filesystem walker\<close>

text \<open>
  What \<open>os.FileInfo\<close> reports: name, size, mode bits and modification time.
  \<open>IsDir\<close> and the symlink test read the mode bits.
\<close>

record FileInfo =
  fi_Name :: string
  fi_Size :: int
  fi_Mode :: "32 word"
  fi_ModTime :: int

definition ModeDir :: "32 word" where
  "ModeDir = push_bit 31 1"

definition ModeSymlink :: "32 word" where
  "ModeSymlink = push_bit 27 1"

definition fi_IsDir :: "FileInfo \<Rightarrow> bool" where
  "fi_IsDir fi = (fi_Mode fi AND ModeDir \<noteq> 0)"

definition NewLocalFile :: "string \<Rightarrow> FileInfo \<Rightarrow> File" where
  "NewLocalFile absPath f =
     \<lparr>AlternateLink = '''', BlobAt = absPath, Copyable = False, ExportLinks = [],
      Id_file = '''', IsDir = fi_IsDir f, Md5Checksum = '''', MimeType = '''',
      ModTime = time_Round_Second (fi_ModTime f), Name = fi_Name f, Size = fi_Size f,
      Etag = '''', Shared = False, CacheChecksum = True, Version = 0, OwnerNames = []\<rparr>"

text \<open>
  The remote API's file record, as far as \<open>NewRemoteFile\<close> reads it. Parsing the
  date and decoding the title are functions of the caller's: \<open>time_Parse\<close> gives
  the instant or \<open>None\<close> on a malformed date, for which Go leaves the zero time.
\<close>

record RemoteFile =
  AlternateLink_r :: string
  DownloadUrl :: string
  Copyable_r :: bool
  Etag_r :: string
  ExportLinks_r :: "(string \<times> string) list"
  Id_r :: string
  MimeType_r :: string
  Md5Checksum_r :: string
  ModifiedDate :: string
  Title :: string
  FileSize :: int
  Shared_r :: bool
  Version_r :: int
  OwnerNames_r :: "string list"

definition time_zero :: int where
  "time_zero = - 62135596800000000000"

definition NewRemoteFile ::
  "(string \<Rightarrow> int option) \<Rightarrow> (string \<Rightarrow> bool \<Rightarrow> string) \<Rightarrow> RemoteFile \<Rightarrow> File" where
  "NewRemoteFile time_Parse urlToPath f =
     (let mtime = (case time_Parse (ModifiedDate f) of Some t \<Rightarrow> t | None \<Rightarrow> time_zero);
          mtime = time_Round_Second mtime
      in \<lparr>AlternateLink = AlternateLink_r f, BlobAt = DownloadUrl f, Copyable = Copyable_r f,
          ExportLinks = ExportLinks_r f, Id_file = Id_r f,
          IsDir = (MimeType_r f = DriveFolderMimeType), Md5Checksum = Md5Checksum_r f,
          MimeType = MimeType_r f, ModTime = mtime, Name = urlToPath (Title f) True,
          Size = FileSize f, Etag = Etag_r f, Shared = Shared_r f, CacheChecksum = False,
          Version = Version_r f, OwnerNames = OwnerNames_r f\<rparr>)"

text \<open>
  The disk as the walker and the target check see it: the context's
  \<open>AbsPathOf\<close>, \<open>ioutil.ReadDir\<close>, \<open>filepath.EvalSymlinks\<close>, \<open>os.Stat\<close> and
  \<open>path.Join\<close>.
\<close>

datatype stat_result = StatOk FileInfo | StatNotExist | StatFailed string

record disk =
  AbsPathOf :: "string \<Rightarrow> string"
  ReadDir :: "string \<Rightarrow> error + FileInfo list"
  EvalSymlinks :: "string \<Rightarrow> string option"
  Stat :: "string \<Rightarrow> stat_result"
  Join :: "string \<Rightarrow> string \<Rightarrow> string"

text \<open>
  Modelled from the spec: the name of the metadata directory,
  \<open>config.GDDirSuffix\<close>, whose declaration is not among the sources.
\<close>

definition GDDirSuffix :: string where
  "GDDirSuffix = ''.gd''"

definition isHidden :: "string \<Rightarrow> bool \<Rightarrow> bool" where
  "isHidden p ignore = (if prefix ''.'' p then \<not> ignore else False)"

text \<open>
  A compiled ignore expression is the set of strings it matches; \<open>None\<close> is the
  nil pointer. \<open>resolveToLocalFile\<close> gives the local file, if there is one.
\<close>

definition resolveToLocalFile ::
  "disk \<Rightarrow> (string \<Rightarrow> bool) option \<Rightarrow> string \<Rightarrow> string \<Rightarrow> error + File option" where
  "resolveToLocalFile dk IgnoreRegexp relToRoot fsPath =
     (if (case IgnoreRegexp of None \<Rightarrow> False | Some re \<Rightarrow> re relToRoot)
      then Inl (ErrIgnored relToRoot)
      else (case Stat dk fsPath of
              StatFailed e \<Rightarrow> Inl (ErrStat e)
            | StatNotExist \<Rightarrow> Inr None
            | StatOk localinfo \<Rightarrow> Inr (Some (NewLocalFile fsPath localinfo))))"

text \<open>
  The walker (Go's \<open>list\<close>) is \<open>list_dir\<close>, with its loop over the directory
  entries \<open>list_loop\<close>; \<open>list_send\<close> is what the loop sends for one entry that
  passed the three filters.
\<close>

definition list_send :: "disk \<Rightarrow> string \<Rightarrow> FileInfo \<Rightarrow> File list" where
  "list_send dk absPath file =
     (let symlink = (fi_Mode file AND ModeSymlink \<noteq> 0)
      in if \<not> symlink
         then [NewLocalFile (Join dk absPath (fi_Name file)) file]
         else (case EvalSymlinks dk (Join dk absPath (fi_Name file)) of
                 None \<Rightarrow> []
               | Some symResolvPath \<Rightarrow>
                   (case Stat dk symResolvPath of
                      StatOk symInfo \<Rightarrow> [NewLocalFile symResolvPath symInfo]
                    | _ \<Rightarrow> [])))"

fun list_loop :: "disk \<Rightarrow> string \<Rightarrow> bool \<Rightarrow> (string \<Rightarrow> bool) option \<Rightarrow> FileInfo list \<Rightarrow> File list" where
  "list_loop dk absPath hidden ignore [] = []"
| "list_loop dk absPath hidden ignore (file # f) =
     (if fi_Name file = GDDirSuffix then list_loop dk absPath hidden ignore f
      else if (case ignore of None \<Rightarrow> False | Some re \<Rightarrow> re (fi_Name file))
      then list_loop dk absPath hidden ignore f
      else if isHidden (fi_Name file) hidden then list_loop dk absPath hidden ignore f
      else list_send dk absPath file @ list_loop dk absPath hidden ignore f)"

definition list_dir ::
  "disk \<Rightarrow> string \<Rightarrow> bool \<Rightarrow> (string \<Rightarrow> bool) option \<Rightarrow> error + File list" where
  "list_dir dk p hidden ignore =
     (let absPath = AbsPathOf dk p
      in case ReadDir dk absPath of
           Inl err \<Rightarrow> Inl err
         | Inr f \<Rightarrow> Inr (list_loop dk absPath hidden ignore f))"

text \<open>
  The root-relative path under which the resolver descends into a child of
  \<open>p\<close> (the \<open>joined\<close> of \<open>resolveChangeListRecv\<close>).
\<close>

definition joined :: "string \<Rightarrow> string \<Rightarrow> string" where
  "joined p name = (if p = ''/'' then ''/'' @ name else p @ ''/'' @ name)"

section \<open>Quota gate\<close>

datatype quota_status = Barely | AlmostExceeded | HalfwayExceeded | Exceeded | Unknown

text \<open>The two fields of the remote \<open>About\<close> record that \<open>QuotaStatus\<close> reads, both \<open>int64\<close>.\<close>

record About =
  QuotaBytesTotal :: int
  QuotaBytesUsed :: int

text \<open>Addition of two \<open>int64\<close> values wraps around.\<close>

definition int64_add :: "int \<Rightarrow> int \<Rightarrow> int" where
  "int64_add a b = (a + b + 2 ^ 63) mod 2 ^ 64 - 2 ^ 63"

text \<open>
  A \<open>float64\<close> is the rational number it stands for. Conversion from an integer,
  division and the conversion of a decimal constant all give the exact result
  rounded to 53 significant bits, to the nearest such number and to the one
  with an even last bit when two are equally near. \<open>round_half_even\<close> rounds to
  an integer in that way, \<open>ilog2\<close> is the binary exponent of a positive
  rational. The values met here are integers below \<open>2 ^ 63\<close> in size and
  quotients of two of them with a divisor of at least 1, so that no infinity,
  not-a-number or subnormal number arises.
\<close>

definition round_half_even :: "rat \<Rightarrow> int" where
  "round_half_even x =
     (let f = \<lfloor>x\<rfloor>; d = x - of_int f
      in if d < 1 / 2 then f
         else if 1 / 2 < d then f + 1
         else if even f then f else f + 1)"

definition ilog2 :: "rat \<Rightarrow> int" where
  "ilog2 x =
     (case quotient_of x of
        (p, q) \<Rightarrow>
          (let e = bitlen p - bitlen q
           in if 2 powi e \<le> x then e else e - 1))"

definition float64_round :: "rat \<Rightarrow> rat" where
  "float64_round x =
     (if x = 0 then 0
      else (let e = ilog2 \<bar>x\<bar> - 52
            in sgn x * of_int (round_half_even (\<bar>x\<bar> / 2 powi e)) * 2 powi e))"

definition float64_of_int :: "int \<Rightarrow> rat" where
  "float64_of_int n = float64_round (of_int n)"

definition float64_div :: "rat \<Rightarrow> rat \<Rightarrow> rat" where
  "float64_div x y = float64_round (x / y)"

text \<open>
  \<open>QuotaStatus\<close> takes what the remote \<open>About\<close> call returned and the query, and
  gives the status with the error, if any. The two constants are the
  \<open>float64\<close> values of \<open>0.5\<close> and \<open>0.8\<close>.
\<close>

definition QuotaStatus :: "error + About \<Rightarrow> int \<Rightarrow> quota_status \<times> error option" where
  "QuotaStatus rem_About query =
     (if query < 0 then (Unknown, None)
      else (case rem_About of
              Inl err \<Rightarrow> (Unknown, Some err)
            | Inr about \<Rightarrow>
                if QuotaBytesTotal about < 1 then (Unknown, Some ErrQuotaBytesTotal)
                else (let toBeUsed = int64_add query (QuotaBytesUsed about)
                      in if toBeUsed \<ge> QuotaBytesTotal about then (Exceeded, None)
                         else (let percentage = float64_div (float64_of_int toBeUsed)
                                                  (float64_of_int (QuotaBytesTotal about))
                               in if percentage < float64_round (1 / 2) then (Barely, None)
                                  else if percentage < float64_round (4 / 5)
                                  then (HalfwayExceeded, None)
                                  else (AlmostExceeded, None)))))"

section \<open>Sample inputs\<close>

text \<open>Concrete files, changes and disks on which the statements below are run.\<close>

definition file0 :: File where
  "file0 =
     \<lparr>AlternateLink = '''', BlobAt = '''', Copyable = False, ExportLinks = [],
      Id_file = '''', IsDir = False, Md5Checksum = '''', MimeType = '''',
      ModTime = 0, Name = '''', Size = 0,
      Etag = '''', Shared = False, CacheChecksum = False, Version = 0, OwnerNames = []\<rparr>"

definition ex_local :: File where
  "ex_local = file0\<lparr>Name := ''b.txt'', BlobAt := ''/root/b.txt'', Size := 10,
     ModTime := 5000000000, Md5Checksum := ''aa'', CacheChecksum := True\<rparr>"

definition ex_remote :: File where
  "ex_remote = file0\<lparr>Name := ''b.txt'', Id_file := ''f1'', Size := 12,
     ModTime := 7000000000, Md5Checksum := ''bb''\<rparr>"

definition ex_fresh_local :: File where
  "ex_fresh_local = file0\<lparr>Name := ''b.txt'', BlobAt := ''/root/b.txt'', Size := 12,
     ModTime := 7000000000, CacheChecksum := True\<rparr>"

definition ex_change :: Change where
  "ex_change = \<lparr>Dest = Some ex_remote, Parent = ''/'', Path = ''/b.txt'', Src = Some ex_local,
     Force = False, NoClobber = False, IgnoreConflict = False, IgnoreChecksum = False\<rparr>"


definition no_blobs :: blobs where
  "no_blobs = (\<lambda>p. None)"

definition ex_blobs :: blobs where
  "ex_blobs p = (if p = ''/root/b.txt'' then Some ''aa'' else None)"

definition ex_index :: "string \<Rightarrow> Index option" where
  "ex_index fileId =
     (if fileId = ''f1''
      then Some \<lparr>FileId = ''f1'', Etag_index = '''', Md5Checksum_index = ''cc'',
                 MimeType_index = '''', ModTime_index = 5, Version_index = 0\<rparr>
      else None)"

definition ex_r1 :: File where
  "ex_r1 = file0\<lparr>Name := ''photo.jpg'', Id_file := ''id1'', Size := 3\<rparr>"

definition ex_r2 :: File where
  "ex_r2 = file0\<lparr>Name := ''photo.jpg'', Id_file := ''id2'', Size := 4\<rparr>"

definition ex_l1 :: File where
  "ex_l1 = file0\<lparr>Name := ''photo.jpg'', BlobAt := ''/root/photo.jpg'', Size := 3\<rparr>"

definition ex_l2 :: File where
  "ex_l2 = file0\<lparr>Name := ''notes.txt'', BlobAt := ''/root/notes.txt'', Size := 7\<rparr>"

definition ex_dirinfo :: FileInfo where
  "ex_dirinfo = \<lparr>fi_Name = ''docs'', fi_Size = 4096, fi_Mode = ModeDir OR 493, fi_ModTime = 0\<rparr>"

definition ex_fileinfo :: FileInfo where
  "ex_fileinfo = \<lparr>fi_Name = ''b.txt'', fi_Size = 10, fi_Mode = 420, fi_ModTime = 5000000000\<rparr>"

definition ex_disk :: disk where
  "ex_disk =
     \<lparr>AbsPathOf = (\<lambda>p. ''/root'' @ p),
      ReadDir = (\<lambda>p. if p = ''/root/docs'' then Inr [ex_fileinfo] else Inl (ErrReadDir p)),
      EvalSymlinks = (\<lambda>p. None),
      Stat = (\<lambda>p. if p = ''/root/docs/b.txt'' then StatOk ex_fileinfo
                   else if p = ''/root/docs'' then StatOk ex_dirinfo else StatNotExist),
      Join = (\<lambda>d n. d @ ''/'' @ n)\<rparr>"

text \<open>The expression \<open>^/docs/b\.txt$\<close>, as the set of strings it matches.\<close>

definition ex_ignore :: "string \<Rightarrow> bool" where
  "ex_ignore s = (s = ''/docs/b.txt'')"

definition ex_api_folder :: RemoteFile where
  "ex_api_folder =
     \<lparr>AlternateLink_r = '''', DownloadUrl = '''', Copyable_r = False, Etag_r = '''',
      ExportLinks_r = [], Id_r = ''d1'', MimeType_r = DriveFolderMimeType, Md5Checksum_r = '''',
      ModifiedDate = ''2015-03-01T10:00:00.000Z'', Title = ''docs'', FileSize = 0,
      Shared_r = False, Version_r = 1, OwnerNames_r = []\<rparr>"

text \<open>A date parser that knows one date, and a title decoder that changes nothing.\<close>

definition ex_parse :: "string \<Rightarrow> int option" where
  "ex_parse s = (if s = ''2015-03-01T10:00:00.000Z'' then Some 1425204000000000000 else None)"

definition ex_urlToPath :: "string \<Rightarrow> bool \<Rightarrow> string" where
  "ex_urlToPath s b = s"

definition ex_about :: About where
  "ex_about = \<lparr>QuotaBytesTotal = 10, QuotaBytesUsed = 6\<rparr>"

definition ex_about_huge :: About where
  "ex_about_huge = \<lparr>QuotaBytesTotal = 18014398509481985, QuotaBytesUsed = 0\<rparr>"

section \<open>Properties of the classifier and of the operation\<close>

lemmas Differ_defs =
  DifferNone_def DifferDirType_def DifferMd5Checksum_def DifferModTime_def DifferSize_def

lemmas differs_defs =
  checksumDiffers_def dirTypeDiffers_def modTimeDiffers_def sizeDiffers_def

text \<open>
  The two branches of the checksum step do the same work: \<open>ignoreChecksum\<close>
  changes nothing in what \<open>fileDifferences\<close> returns or opens.
\<close>

lemma fileDifferences_flag_irrelevant:
  "fileDifferences fs src dest True = fileDifferences fs src dest False"
  by (simp add: fileDifferences_def Let_def split: option.splits)

text \<open>
  What the four bits of the mask say about two files that are both there.
\<close>

lemma fileDifferences_bits:
  "(let msk = fst (fileDifferences fs (Some s) (Some d) ignoreChecksum)
    in sizeDiffers msk = (Size s \<noteq> Size d)
       \<and> modTimeDiffers msk = (ModTime s \<noteq> ModTime d)
       \<and> dirTypeDiffers msk = (IsDir s \<noteq> IsDir d)
       \<and> checksumDiffers msk =
           (Size s \<noteq> Size d
            \<or> fst (md5Checksum fs (Some s)) \<noteq> fst (md5Checksum fs (Some d))))"
  by (simp add: fileDifferences_def Let_def Differ_defs differs_defs time_Equal_def
      split: prod.splits)

text \<open>
  C2. With \<open>ignoreChecksum\<close> set, the checksum bit should go up only together
  with the size bit, and no blob should be read while the sizes agree. On a
  local file without a stored checksum and a remote file of the same size and
  time, the classifier opens the local blob, stores the digest, and raises the
  checksum bit alone.
\<close>

theorem fileDifferences_ignoreChecksum_hashes:
  "fileDifferences ex_blobs (Some ex_fresh_local) (Some ex_remote) True
     = (DifferMd5Checksum, Some (ex_fresh_local\<lparr>Md5Checksum := ''aa''\<rparr>), Some ex_remote,
        [''/root/b.txt''])
   \<and> checksumDiffers DifferMd5Checksum \<and> \<not> sizeDiffers DifferMd5Checksum"
  by (simp add: fileDifferences_def md5Checksum_def ex_blobs_def ex_fresh_local_def ex_remote_def
      file0_def Differ_defs differs_defs time_Equal_def Let_def)

text \<open>
  C3. With \<open>Force\<close> and \<open>NoClobber\<close> both off, \<open>Op\<close> follows the derivation
  table: both sides nil give \<open>OpNone\<close>; only a source gives \<open>OpAdd\<close>; only a
  destination gives \<open>OpDelete\<close>; a directory on one side only gives \<open>OpMod\<close>;
  two directories give \<open>OpNone\<close>; otherwise a raised size or checksum bit gives
  \<open>OpModConflict\<close> (\<open>OpMod\<close> under \<open>IgnoreConflict\<close>), else a raised time bit
  gives \<open>OpMod\<close>, else \<open>OpNone\<close>.
\<close>

theorem Op_derivation_table:
  assumes "\<not> Force c" and "\<not> NoClobber c"
  shows "fst (Op fs c) =
     (case (Src c, Dest c) of
        (None, None) \<Rightarrow> OpNone
      | (Some s, None) \<Rightarrow> OpAdd
      | (None, Some d) \<Rightarrow> OpDelete
      | (Some s, Some d) \<Rightarrow>
          if IsDir s \<noteq> IsDir d then OpMod
          else if IsDir s then OpNone
          else (let msk = fst (fileDifferences fs (Some s) (Some d) (IgnoreChecksum c))
                in if sizeDiffers msk \<or> checksumDiffers msk
                   then (if IgnoreConflict c then OpMod else OpModConflict)
                   else if modTimeDiffers msk then OpMod
                   else OpNone))"
  using assms
  by (simp add: Op_def op_def Let_def split: option.splits prod.splits)

theorem Op_derivation_table_witness:
  "\<not> Force ex_change \<and> \<not> NoClobber ex_change \<and> fst (Op no_blobs ex_change) = OpModConflict"
  using Op_derivation_table [of ex_change no_blobs]
  by (simp add: ex_change_def ex_local_def ex_remote_def file0_def fileDifferences_def
      Differ_defs differs_defs time_Equal_def Let_def)

text \<open>
  C4. The policy overlay: under \<open>Force\<close> a raw \<open>OpModConflict\<close> becomes \<open>OpMod\<close>
  and every other raw operation becomes \<open>OpAdd\<close>, so a forced change is never
  \<open>OpModConflict\<close>; without \<open>Force\<close>, under \<open>NoClobber\<close> a raw operation other
  than \<open>OpAdd\<close> becomes \<open>OpNone\<close>, so only additions are left. Without \<open>Force\<close>
  an addition stays an addition, and with both flags off the raw operation is
  the result.
\<close>

theorem Op_policy_overlay:
  "(Force c \<longrightarrow>
      fst (Op fs c) = (if fst (op fs c) = OpModConflict then OpMod else OpAdd)
      \<and> fst (Op fs c) \<noteq> OpModConflict)
   \<and> (\<not> Force c \<and> NoClobber c \<and> fst (op fs c) \<noteq> OpAdd \<longrightarrow> fst (Op fs c) = OpNone)
   \<and> (\<not> Force c \<and> NoClobber c \<longrightarrow> fst (Op fs c) = OpNone \<or> fst (Op fs c) = OpAdd)
   \<and> (\<not> Force c \<and> fst (op fs c) = OpAdd \<longrightarrow> fst (Op fs c) = OpAdd)
   \<and> (\<not> Force c \<and> \<not> NoClobber c \<longrightarrow> fst (Op fs c) = fst (op fs c))"
  by (auto simp add: Op_def split: prod.splits)

lemma ex_change_op: "op no_blobs ex_change = (OpModConflict, ex_change)"
  by (simp add: op_def ex_change_def ex_local_def ex_remote_def file0_def fileDifferences_def
      Differ_defs differs_defs time_Equal_def Let_def)

theorem Op_policy_overlay_witness:
  "Force (ex_change\<lparr>Force := True\<rparr>)
   \<and> fst (Op no_blobs (ex_change\<lparr>Force := True\<rparr>)) = OpMod
   \<and> \<not> Force (ex_change\<lparr>NoClobber := True\<rparr>) \<and> NoClobber (ex_change\<lparr>NoClobber := True\<rparr>)
   \<and> fst (op no_blobs (ex_change\<lparr>NoClobber := True\<rparr>)) \<noteq> OpAdd
   \<and> fst (Op no_blobs (ex_change\<lparr>NoClobber := True\<rparr>)) = OpNone"
proof -
  have f: "fst (op no_blobs (ex_change\<lparr>Force := True\<rparr>)) = OpModConflict"
    by (simp add: op_def ex_change_def ex_local_def ex_remote_def file0_def fileDifferences_def
        Differ_defs differs_defs time_Equal_def Let_def)
  have n: "fst (op no_blobs (ex_change\<lparr>NoClobber := True\<rparr>)) = OpModConflict"
    by (simp add: op_def ex_change_def ex_local_def ex_remote_def file0_def fileDifferences_def
        Differ_defs differs_defs time_Equal_def Let_def)
  have g: "\<not> Force ex_change" by (simp add: ex_change_def)
  show ?thesis
    using Op_policy_overlay [of "ex_change\<lparr>Force := True\<rparr>" no_blobs]
      Op_policy_overlay [of "ex_change\<lparr>NoClobber := True\<rparr>" no_blobs] f n g
    by simp
qed




section \<open>Properties of the conflict resolver\<close>

lemma Op_ModConflict_sides:
  assumes "fst (Op fs ch) = OpModConflict"
  shows "\<exists>s d. Src ch = Some s \<and> Dest ch = Some d"
  using assms
  by (cases "Src ch"; cases "Dest ch") (auto simp: Op_def op_def split: if_splits prod.splits)

lemma conflict_spurious_either:
  assumes "Src ch = Some s" and "Dest ch = Some d"
  shows "conflict (local_side push ch) (remote_side push ch)
           (indexFiler (index_key push ch)) push
         = Inr (\<not> spurious_either push indexFiler ch)"
  using assms
  by (cases push)
     (auto simp: conflict_def spurious_either_def local_side_def remote_side_def Let_def
           split: option.splits)

lemma fileId_index_key:
  "(if (case local_side push ch of Some lf \<Rightarrow> Id_file lf | None \<Rightarrow> '''') = ''''
    then (case remote_side push ch of Some rf \<Rightarrow> Id_file rf
          | None \<Rightarrow> (case local_side push ch of Some lf \<Rightarrow> Id_file lf | None \<Rightarrow> ''''))
    else (case local_side push ch of Some lf \<Rightarrow> Id_file lf | None \<Rightarrow> ''''))
   = index_key push ch"
  by (simp add: index_key_def split: option.splits)

lemma resolveConflicts_loop_step:
  "resolveConflicts_loop fs (ch # rest) push indexFiler resolved unresolved =
     (case conflict (local_side push ch) (remote_side push ch)
             (indexFiler (index_key push ch)) push of
        Inl e \<Rightarrow> Inl e
      | Inr cf \<Rightarrow>
          if \<not> cf
          then resolveConflicts_loop fs rest push indexFiler
                 (resolved @ [if fst (Op fs ch) = OpModConflict
                              then (snd (Op fs ch))\<lparr>IgnoreConflict := True\<rparr>
                              else snd (Op fs ch)])
                 unresolved
          else resolveConflicts_loop fs rest push indexFiler resolved (unresolved @ [ch]))"
  unfolding resolveConflicts_loop.simps(2) Let_def case_prod_unfold
    local_side_def [symmetric] remote_side_def [symmetric] fileId_index_key
  by (rule refl)

lemma resolveConflicts_loop_classifies:
  assumes "\<forall>ch \<in> set conflicts. fst (Op fs ch) = OpModConflict"
  shows "resolveConflicts_loop fs conflicts push indexFiler resolved unresolved =
           Inr (resolved @ map (mark_resolved fs) (filter (spurious_either push indexFiler) conflicts),
                unresolved @ filter (\<lambda>ch. \<not> spurious_either push indexFiler ch) conflicts)"
  using assms
proof (induction conflicts arbitrary: resolved unresolved)
  case Nil
  then show ?case by simp
next
  case (Cons ch rest)
  from Cons.prems have mc: "fst (Op fs ch) = OpModConflict" by simp
  then obtain s d where sd: "Src ch = Some s" "Dest ch = Some d"
    using Op_ModConflict_sides by blast
  have rest: "\<forall>c \<in> set rest. fst (Op fs c) = OpModConflict"
    using Cons.prems by simp
  show ?case
    unfolding resolveConflicts_loop_step conflict_spurious_either [OF sd]
    by (simp add: Cons.IH [OF rest] mc mark_resolved_def del: resolveConflicts_loop.simps)
qed

lemma ex_change_Op: "Op no_blobs ex_change = (OpModConflict, ex_change)"
  by (simp add: Op_def ex_change_op) (simp add: ex_change_def)

lemma ex_change_key: "index_key push ex_change = ''f1''"
  by (simp add: index_key_def local_side_def remote_side_def ex_change_def ex_local_def
      ex_remote_def file0_def)

text \<open>
  C1. For changes whose operation is \<open>OpModConflict\<close>, the resolver returns, and
  splits them by one test on the index record found under the local side's id
  (the remote side's when that is empty): a change is resolved, with
  \<open>IgnoreConflict\<close> set, exactly when there is no record, or the run is a push
  and the remote side's time in seconds equals the record's, or the local
  side's rounded time equals the record's, or the local side's checksum equals
  the record's; every other change is left unresolved, untouched. Either of
  the last two agreements is enough; the two are not both required.
\<close>

theorem resolveConflicts_classifies:
  assumes "\<forall>ch \<in> set conflicts. fst (Op fs ch) = OpModConflict"
  shows "resolveConflicts fs conflicts push indexFiler =
           Inr (map (mark_resolved fs) (filter (spurious_either push indexFiler) conflicts),
                filter (\<lambda>ch. \<not> spurious_either push indexFiler ch) conflicts)"
proof (cases conflicts)
  case Nil
  then show ?thesis by (simp add: resolveConflicts_def)
next
  case (Cons ch rest)
  then have "\<not> length conflicts < 1" by simp
  then show ?thesis
    using resolveConflicts_loop_classifies [OF assms, of push indexFiler "[]" "[]"]
    by (simp add: resolveConflicts_def)
qed

theorem resolveConflicts_classifies_witness:
  "fst (Op no_blobs ex_change) = OpModConflict
   \<and> resolveConflicts no_blobs [ex_change] False ex_index = Inr ([], [ex_change])"
proof -
  have h: "\<forall>ch \<in> set [ex_change]. fst (Op no_blobs ch) = OpModConflict"
    by (simp add: ex_change_Op)
  have s: "\<not> spurious_either False ex_index ex_change"
    by (simp add: spurious_either_def ex_change_key ex_index_def)
       (simp add: local_side_def remote_side_def ex_change_def ex_local_def ex_remote_def
          file0_def time_Unix_def time_Round_Second_def time_UTC_def)
  show ?thesis
    using resolveConflicts_classifies [OF h, of False ex_index] h s by simp
qed

text \<open>
  On a push of a local file whose rounded time equals the record's while its
  checksum does not, with the remote side changed since: none of the three
  clauses of the specification holds, and the resolver resolves the change.
\<close>

theorem resolveConflicts_spec_counterexample:
  "fst (Op no_blobs ex_change) = OpModConflict
   \<and> \<not> spurious_spec True ex_index ex_change
   \<and> resolveConflicts no_blobs [ex_change] True ex_index
       = Inr ([ex_change\<lparr>IgnoreConflict := True\<rparr>], [])"
proof -
  have a: "\<not> spurious_spec True ex_index ex_change"
    by (simp add: spurious_spec_def ex_change_key ex_index_def)
       (simp add: local_side_def remote_side_def ex_change_def ex_local_def ex_remote_def
          file0_def time_Unix_def time_Round_Second_def time_UTC_def)
  have b: "conflict (Some ex_local) (Some ex_remote) (ex_index ''f1'') True = Inr False"
    by (simp add: conflict_def ex_index_def ex_local_def ex_remote_def
          file0_def time_Unix_def time_Round_Second_def time_UTC_def)
  have l: "local_side True ex_change = Some ex_local"
    "remote_side True ex_change = Some ex_remote"
    by (simp_all add: local_side_def remote_side_def ex_change_def)
  have c: "resolveConflicts no_blobs [ex_change] True ex_index
       = Inr ([ex_change\<lparr>IgnoreConflict := True\<rparr>], [])"
    unfolding resolveConflicts_def
    by (simp add: resolveConflicts_loop_step l b ex_change_key ex_change_Op
         del: resolveConflicts_loop.simps(2))
  show ?thesis using a c by (simp add: ex_change_Op)
qed

section \<open>Properties of the directory merger\<close>

subsection \<open>The containers\<close>

lemma merge_locals_keys:
  "fst ` set (merge_locals locals t) = Name ` set locals \<union> fst ` set t"
  by (induction locals arbitrary: t) (auto simp: trie_Set_def dom_update)

lemma merge_locals_distinct:
  "distinct (map fst t) \<Longrightarrow> distinct (map fst (merge_locals locals t))"
  by (induction locals arbitrary: t) (auto simp: trie_Set_def distinct_update)

lemma set_update_subset: "set (AList.update k v t) \<subseteq> insert (k, v) (set t)"
  by (induction t) auto

lemma set_delete_subset: "set (AList.delete k t) \<subseteq> set t"
  by (auto simp: AList.delete_eq)

lemma merge_locals_named:
  "(\<forall>p \<in> set t. fst p = Name (snd p)) \<Longrightarrow>
   \<forall>p \<in> set (merge_locals locals t). fst p = Name (snd p)"
proof (induction locals arbitrary: t)
  case Nil
  then show ?case by simp
next
  case (Cons l locals)
  have "\<forall>p \<in> set (AList.update (Name l) l t). fst p = Name (snd p)"
    using Cons.prems set_update_subset [of "Name l" l t] by auto
  then show ?case using Cons.IH by (simp add: trie_Set_def)
qed

lemma find_append_first:
  "find P (xs @ ys) = (case find P xs of None \<Rightarrow> find P ys | Some x \<Rightarrow> Some x)"
  by (induction xs) auto

lemma merge_locals_map_of:
  "map_of (merge_locals locals t) n =
     (case local_named locals n of Some l \<Rightarrow> Some l | None \<Rightarrow> map_of t n)"
proof (induction locals arbitrary: t)
  case Nil
  then show ?case by (simp add: local_named_def)
next
  case (Cons l locals)
  show ?case
    by (simp add: Cons.IH trie_Set_def update_conv' local_named_def find_append_first
        split: option.splits)
qed

subsection \<open>The loop over the remote children\<close>

lemma merge_remotes_acc:
  "merge_remotes rs ig lt rt merged clashes =
     (case merge_remotes rs ig lt rt [] [] of
        (m, c, lt') \<Rightarrow> (merged @ m, clashes @ c, lt'))"
proof (induction rs arbitrary: lt rt merged clashes)
  case Nil
  then show ?case by simp
next
  case (Cons r rs)
  obtain rt' ev where X: "(if \<not> ig then trie_Set rt (Name r) r else (rt, None)) = (rt', ev)"
    by (cases "if \<not> ig then trie_Set rt (Name r) r else (rt, None)") auto
  show ?case
  proof (cases ev)
    case (Some e)
    have A: "merge_remotes rs ig lt rt' merged (clashes @ [e]) =
       (case merge_remotes rs ig lt rt' [] [] of
          (m, c, lt') \<Rightarrow> (merged @ m, (clashes @ [e]) @ c, lt'))"
      by (rule Cons.IH)
    have B: "merge_remotes rs ig lt rt' [] [e] =
       (case merge_remotes rs ig lt rt' [] [] of
          (m, c, lt') \<Rightarrow> ([] @ m, [e] @ c, lt'))"
      by (rule Cons.IH)
    show ?thesis
      by (simp add: X Some A B split: prod.splits)
  next
    case None
    show ?thesis
    proof (cases "trie_Get lt (Name r)")
      case N: None
      let ?d = "\<lparr>remote = Some r, local_f = None\<rparr>"
      have A: "merge_remotes rs ig lt rt' (merged @ [?d]) clashes =
         (case merge_remotes rs ig lt rt' [] [] of
            (m, c, lt') \<Rightarrow> ((merged @ [?d]) @ m, clashes @ c, lt'))"
        by (rule Cons.IH)
      have B: "merge_remotes rs ig lt rt' [?d] [] =
         (case merge_remotes rs ig lt rt' [] [] of
            (m, c, lt') \<Rightarrow> ([?d] @ m, [] @ c, lt'))"
        by (rule Cons.IH)
      show ?thesis
        by (simp add: X None N A B split: prod.splits)
    next
      case S: (Some l)
      let ?d = "\<lparr>remote = Some r, local_f = Some l\<rparr>"
      let ?lt = "trie_Pop lt (Name r)"
      have A: "merge_remotes rs ig ?lt rt' (merged @ [?d]) clashes =
         (case merge_remotes rs ig ?lt rt' [] [] of
            (m, c, lt') \<Rightarrow> ((merged @ [?d]) @ m, clashes @ c, lt'))"
        by (rule Cons.IH)
      have B: "merge_remotes rs ig ?lt rt' [?d] [] =
         (case merge_remotes rs ig ?lt rt' [] [] of
            (m, c, lt') \<Rightarrow> ([?d] @ m, [] @ c, lt'))"
        by (rule Cons.IH)
      show ?thesis
        by (simp add: X None S A B split: prod.splits)
    qed
  qed
qed

lemma merge_remotes_ignoring:
  "merge_remotes (r # rs) True lt rt [] [] =
     (case merge_remotes rs True (AList.delete (Name r) lt) rt [] [] of
        (m, c, lt') \<Rightarrow> (\<lparr>remote = Some r, local_f = map_of lt (Name r)\<rparr> # m, c, lt'))"
proof (cases "map_of lt (Name r)")
  case None
  then have "Name r \<notin> fst ` set lt" by (simp add: map_of_eq_None_iff)
  then have "AList.delete (Name r) lt = lt" by simp
  then show ?thesis
    using None
    by (simp add: trie_Get_def merge_remotes_acc [of rs True lt rt "[_]" "[]"])
next
  case (Some l)
  then show ?thesis
    by (simp add: trie_Get_def trie_Pop_def
        merge_remotes_acc [of rs True "AList.delete (Name r) lt" rt "[_]" "[]"])
qed

lemma merge_remotes_clash:
  assumes "map_of rt (Name r) = Some e"
  shows "merge_remotes (r # rs) False lt rt [] [] =
     (case merge_remotes rs False lt (AList.update (Name r) r rt) [] [] of
        (m, c, lt') \<Rightarrow> (m, e # c, lt'))"
  using assms
  by (simp add: trie_Set_def merge_remotes_acc [of rs False lt _ "[]" "[_]"])

lemma merge_remotes_fresh:
  assumes "map_of rt (Name r) = None"
  shows "merge_remotes (r # rs) False lt rt [] [] =
     (case merge_remotes rs False (AList.delete (Name r) lt) (AList.update (Name r) r rt) [] [] of
        (m, c, lt') \<Rightarrow> (\<lparr>remote = Some r, local_f = map_of lt (Name r)\<rparr> # m, c, lt'))"
proof (cases "map_of lt (Name r)")
  case None
  then have "Name r \<notin> fst ` set lt" by (simp add: map_of_eq_None_iff)
  then have "AList.delete (Name r) lt = lt" by simp
  then show ?thesis
    using None assms
    by (simp add: trie_Get_def trie_Set_def merge_remotes_acc [of rs False lt _ "[_]" "[]"])
next
  case (Some l)
  then show ?thesis
    using assms
    by (simp add: trie_Get_def trie_Pop_def trie_Set_def
        merge_remotes_acc [of rs False "AList.delete (Name r) lt" _ "[_]" "[]"])
qed

lemma merge_remotes_ignoring_inv:
  assumes "merge_remotes rs True lt rt [] [] = (m, c, lt')"
  shows "map remote m = map Some rs
       \<and> c = []
       \<and> map_of lt' = (\<lambda>n. if n \<in> Name ` set rs then None else map_of lt n)
       \<and> set lt' \<subseteq> set lt
       \<and> (distinct (map fst lt) \<longrightarrow> distinct (map fst lt'))
       \<and> (\<forall>i < length rs. local_f (m ! i) =
             (if Name (rs ! i) \<in> Name ` set (take i rs) then None
              else map_of lt (Name (rs ! i))))"
  using assms
proof (induction rs arbitrary: lt m c lt')
  case Nil
  then show ?case by simp
next
  case (Cons r rs)
  obtain m1 c1 lt1 where R: "merge_remotes rs True (AList.delete (Name r) lt) rt [] [] = (m1, c1, lt1)"
    by (cases "merge_remotes rs True (AList.delete (Name r) lt) rt [] []") auto
  from Cons.prems [unfolded merge_remotes_ignoring R]
  have m: "m = \<lparr>remote = Some r, local_f = map_of lt (Name r)\<rparr> # m1"
    and c: "c = c1" and lt': "lt' = lt1"
    by simp_all
  note IH = Cons.IH [OF R]
  have 1: "map remote m = map Some (r # rs)" using IH m by simp
  have 2: "c = []" using IH c by simp
  have 3: "map_of lt' = (\<lambda>n. if n \<in> Name ` set (r # rs) then None else map_of lt n)"
    using IH lt' by (auto simp: fun_eq_iff delete_conv')
  have 4: "set lt' \<subseteq> set lt"
    using IH lt' set_delete_subset [of "Name r" lt] by blast
  have 5: "distinct (map fst lt) \<longrightarrow> distinct (map fst lt')"
    using IH lt' by (simp add: distinct_delete)
  have 6: "local_f (m ! i) =
             (if Name ((r # rs) ! i) \<in> Name ` set (take i (r # rs)) then None
              else map_of lt (Name ((r # rs) ! i)))" if "i < length (r # rs)" for i
  proof (cases i)
    case 0
    then show ?thesis by (simp add: m)
  next
    case (Suc j)
    with that have j: "j < length rs" by simp
    from IH j have "local_f (m1 ! j) =
        (if Name (rs ! j) \<in> Name ` set (take j rs) then None
         else map_of (AList.delete (Name r) lt) (Name (rs ! j)))" by blast
    then show ?thesis
      by (auto simp: Suc m delete_conv')
  qed
  show ?case using 1 2 3 4 5 6 by blast
qed

lemma merge_remotes_detecting_inv:
  assumes "merge_remotes rs False lt rt [] [] = (m, c, lt')"
  shows "(\<forall>d \<in> set m. \<exists>r. remote d = Some r \<and> find (\<lambda>x. Name x = Name r) rs = Some r
                           \<and> local_f d = map_of lt (Name r))
       \<and> distinct (map dirList_Name m)
       \<and> dirList_Name ` set m = Inr ` (Name ` set rs - fst ` set rt)
       \<and> map_of lt' = (\<lambda>n. if n \<in> Name ` set rs - fst ` set rt then None else map_of lt n)
       \<and> set lt' \<subseteq> set lt
       \<and> (distinct (map fst lt) \<longrightarrow> distinct (map fst lt'))
       \<and> length m + length c = length rs"
  using assms
proof (induction rs arbitrary: lt rt m c lt')
  case Nil
  then show ?case by simp
next
  case (Cons r rs)
  let ?rt = "AList.update (Name r) r rt"
  have dom_rt: "fst ` set ?rt = insert (Name r) (fst ` set rt)"
    by (simp add: dom_update)
  show ?case
  proof (cases "map_of rt (Name r)")
    case (Some e)
    then have seen: "Name r \<in> fst ` set rt"
      by (meson domI domIff map_of_eq_None_iff)
    obtain m1 c1 lt1 where R: "merge_remotes rs False lt ?rt [] [] = (m1, c1, lt1)"
      by (cases "merge_remotes rs False lt ?rt [] []") auto
    from Cons.prems [unfolded merge_remotes_clash [OF Some] R]
    have m: "m = m1" and c: "c = e # c1" and lt': "lt' = lt1"
      by simp_all
    note IH = Cons.IH [OF R]
    have dom_eq: "fst ` set ?rt = fst ` set rt" using seen dom_rt by auto
    have diff_eq: "Name ` set (r # rs) - fst ` set rt = Name ` set rs - fst ` set ?rt"
      using seen dom_eq by auto
    have 1: "\<forall>d \<in> set m. \<exists>x. remote d = Some x
               \<and> find (\<lambda>y. Name y = Name x) (r # rs) = Some x
               \<and> local_f d = map_of lt (Name x)"
    proof
      fix d assume "d \<in> set m"
      with IH m obtain x where x: "remote d = Some x"
        "find (\<lambda>y. Name y = Name x) rs = Some x" "local_f d = map_of lt (Name x)"
        by blast
      have "dirList_Name d \<in> Inr ` (Name ` set rs - fst ` set ?rt)"
        using IH \<open>d \<in> set m\<close> m by blast
      then have "Name x \<notin> fst ` set ?rt" using x by (auto simp: dirList_Name_def)
      then have "Name r \<noteq> Name x" using dom_rt by auto
      then show "\<exists>x. remote d = Some x \<and> find (\<lambda>y. Name y = Name x) (r # rs) = Some x
                    \<and> local_f d = map_of lt (Name x)"
        using x by simp
    qed
    show ?thesis
      using 1 IH m c lt' diff_eq by simp
  next
    case None
    then have fresh: "Name r \<notin> fst ` set rt" by (simp add: map_of_eq_None_iff)
    let ?lt = "AList.delete (Name r) lt"
    let ?d = "\<lparr>remote = Some r, local_f = map_of lt (Name r)\<rparr>"
    obtain m1 c1 lt1 where R: "merge_remotes rs False ?lt ?rt [] [] = (m1, c1, lt1)"
      by (cases "merge_remotes rs False ?lt ?rt [] []") auto
    from Cons.prems [unfolded merge_remotes_fresh [OF None] R]
    have m: "m = ?d # m1" and c: "c = c1" and lt': "lt' = lt1"
      by simp_all
    note IH = Cons.IH [OF R]
    have names1: "dirList_Name ` set m1 = Inr ` (Name ` set rs - fst ` set ?rt)"
      using IH by blast
    have dname: "dirList_Name ?d = Inr (Name r)" by (simp add: dirList_Name_def)
    have 1: "\<forall>d \<in> set m. \<exists>x. remote d = Some x
               \<and> find (\<lambda>y. Name y = Name x) (r # rs) = Some x
               \<and> local_f d = map_of lt (Name x)"
    proof
      fix d assume dm: "d \<in> set m"
      show "\<exists>x. remote d = Some x \<and> find (\<lambda>y. Name y = Name x) (r # rs) = Some x
                    \<and> local_f d = map_of lt (Name x)"
      proof (cases "d = ?d")
        case True
        then show ?thesis by simp
      next
        case False
        with dm m have d1: "d \<in> set m1" by simp
        with IH obtain x where x: "remote d = Some x"
          "find (\<lambda>y. Name y = Name x) rs = Some x" "local_f d = map_of ?lt (Name x)"
          by blast
        have "dirList_Name d \<in> Inr ` (Name ` set rs - fst ` set ?rt)"
          using names1 d1 by blast
        then have "Name x \<notin> fst ` set ?rt" using x by (auto simp: dirList_Name_def)
        then have "Name r \<noteq> Name x" using dom_rt by auto
        then show ?thesis using x by (simp add: delete_conv')
      qed
    qed
    have 2: "distinct (map dirList_Name m)"
    proof -
      have "dirList_Name ?d \<notin> dirList_Name ` set m1"
        unfolding names1 dname using dom_rt by auto
      moreover have "distinct (map dirList_Name m1)" using IH by blast
      ultimately show ?thesis by (simp add: m del: dirList.simps)
    qed
    have 3: "dirList_Name ` set m = Inr ` (Name ` set (r # rs) - fst ` set rt)"
      using names1 dname fresh dom_rt by (auto simp: m simp del: dirList.simps)
    have 4: "map_of lt' = (\<lambda>n. if n \<in> Name ` set (r # rs) - fst ` set rt then None
                               else map_of lt n)"
    proof -
      have "map_of lt1 = (\<lambda>n. if n \<in> Name ` set rs - fst ` set ?rt then None
                               else map_of ?lt n)" using IH by blast
      then show ?thesis
        using fresh dom_rt by (auto simp: lt' fun_eq_iff delete_conv')
    qed
    have 5: "set lt' \<subseteq> set lt"
      using IH lt' set_delete_subset [of "Name r" lt] by blast
    have 6: "distinct (map fst lt) \<longrightarrow> distinct (map fst lt')"
      using IH lt' by (simp add: distinct_delete)
    have 7: "length m + length c = length (r # rs)"
      using IH m c by simp
    show ?thesis using 1 2 3 4 5 6 7 by blast
  qed
qed

subsection \<open>The whole merge\<close>

lemma trie_New_keys: "fst ` set trie_New = {}"
  by (simp add: trie_New_def)

lemma local_only_names:
  assumes "\<forall>p \<in> set t. fst p = Name (snd p)"
  shows "map dirList_Name (map (\<lambda>l. \<lparr>remote = None, local_f = Some l\<rparr>) (trie_Walk t))
         = map (\<lambda>p. Inr (fst p)) t"
  using assms by (induction t) (auto simp: trie_Walk_def dirList_Name_def)

lemma distinct_map_Inr_fst:
  "distinct (map fst t) \<Longrightarrow> distinct (map (\<lambda>p. Inr (fst p) :: error + string) t)"
  by (induction t) auto

lemma keys_eq_dom: "fst ` set t = dom (map_of t)"
  by (simp add: dom_map_of_conv_image_fst)

lemma locals_trie:
  "distinct (map fst (merge_locals locals trie_New))"
  "\<forall>p \<in> set (merge_locals locals trie_New). fst p = Name (snd p)"
  "map_of (merge_locals locals trie_New) = local_named locals"
  "fst ` set (merge_locals locals trie_New) = Name ` set locals"
proof -
  show "distinct (map fst (merge_locals locals trie_New))"
    by (rule merge_locals_distinct) (simp add: trie_New_def)
  show "\<forall>p \<in> set (merge_locals locals trie_New). fst p = Name (snd p)"
    by (rule merge_locals_named) (simp add: trie_New_def)
  show "map_of (merge_locals locals trie_New) = local_named locals"
    by (auto simp: fun_eq_iff merge_locals_map_of trie_New_def split: option.splits)
  show "fst ` set (merge_locals locals trie_New) = Name ` set locals"
    by (simp add: merge_locals_keys trie_New_def)
qed

lemma merge_split:
  assumes "merge_remotes remotes ig (merge_locals locals trie_New) trie_New [] [] = (m, c, lt')"
  shows "merge remotes locals ig =
           (m @ map (\<lambda>l. \<lparr>remote = None, local_f = Some l\<rparr>) (trie_Walk lt'), c)"
  using assms by (simp add: merge_def)

lemma merge_detecting:
  "distinct (map dirList_Name (fst (merge remotes locals False)))"
  "set (map dirList_Name (fst (merge remotes locals False))) = Inr ` Name ` (set remotes \<union> set locals)"
  "\<forall>d \<in> set (fst (merge remotes locals False)).
      case remote d of
        None \<Rightarrow> local_f d \<noteq> None
      | Some r \<Rightarrow> find (\<lambda>x. Name x = Name r) remotes = Some r
                  \<and> local_f d = local_named locals (Name r)"
  "length (filter (\<lambda>d. remote d \<noteq> None) (fst (merge remotes locals False)))
     + length (snd (merge remotes locals False)) = length remotes"
proof -
  let ?lt = "merge_locals locals trie_New"
  obtain m c lt' where R: "merge_remotes remotes False ?lt trie_New [] [] = (m, c, lt')"
    by (cases "merge_remotes remotes False ?lt trie_New [] []") auto
  note inv = merge_remotes_detecting_inv [OF R]
  note M = merge_split [OF R]
  let ?L = "map (\<lambda>l. \<lparr>remote = None, local_f = Some l\<rparr>) (trie_Walk lt')"
  have sub: "set lt' \<subseteq> set ?lt" using inv by blast
  have named: "\<forall>p \<in> set lt'. fst p = Name (snd p)"
    using sub locals_trie(2) [of locals] by blast
  have dist: "distinct (map fst lt')" using inv locals_trie(1) [of locals] by blast
  have Lnames: "map dirList_Name ?L = map (\<lambda>p. Inr (fst p)) lt'"
    by (rule local_only_names [OF named])
  have mnames: "dirList_Name ` set m = Inr ` Name ` set remotes"
    using inv by (simp add: trie_New_keys)
  have mo: "map_of lt' = (\<lambda>n. if n \<in> Name ` set remotes then None else local_named locals n)"
    using inv by (simp add: locals_trie(3) trie_New_keys cong: if_cong)
  have keys: "fst ` set lt' = Name ` set locals - Name ` set remotes"
  proof -
    have "fst ` set lt' = dom (map_of lt')" by (rule keys_eq_dom)
    also have "\<dots> = dom (local_named locals) - Name ` set remotes"
      by (auto simp: mo dom_def split: if_splits)
    also have "dom (local_named locals) = Name ` set locals"
      using locals_trie(3,4) [of locals] keys_eq_dom [of ?lt] by simp
    finally show ?thesis .
  qed
  have Lset: "set (map dirList_Name ?L) = Inr ` (Name ` set locals - Name ` set remotes)"
    unfolding Lnames using keys by (simp add: image_image [symmetric])
  show "distinct (map dirList_Name (fst (merge remotes locals False)))"
  proof -
    have "distinct (map dirList_Name m)" using inv by blast
    moreover have "distinct (map dirList_Name ?L)"
      unfolding Lnames by (rule distinct_map_Inr_fst [OF dist])
    moreover have "set (map dirList_Name m) \<inter> set (map dirList_Name ?L) = {}"
      unfolding Lset using mnames by auto
    ultimately show ?thesis by (simp add: M del: set_map)
  qed
  show "set (map dirList_Name (fst (merge remotes locals False)))
          = Inr ` Name ` (set remotes \<union> set locals)"
  proof -
    have "set (map dirList_Name (fst (merge remotes locals False)))
            = dirList_Name ` set m \<union> set (map dirList_Name ?L)"
      by (simp add: M del: set_map) simp
    then show ?thesis unfolding Lset mnames by auto
  qed
  show "\<forall>d \<in> set (fst (merge remotes locals False)).
      case remote d of
        None \<Rightarrow> local_f d \<noteq> None
      | Some r \<Rightarrow> find (\<lambda>x. Name x = Name r) remotes = Some r
                  \<and> local_f d = local_named locals (Name r)"
  proof
    fix d assume "d \<in> set (fst (merge remotes locals False))"
    then consider "d \<in> set m" | "d \<in> set ?L" by (auto simp: M)
    then show "case remote d of
        None \<Rightarrow> local_f d \<noteq> None
      | Some r \<Rightarrow> find (\<lambda>x. Name x = Name r) remotes = Some r
                  \<and> local_f d = local_named locals (Name r)"
    proof cases
      case 1
      with inv obtain r where "remote d = Some r"
        "find (\<lambda>x. Name x = Name r) remotes = Some r" "local_f d = map_of ?lt (Name r)"
        by blast
      then show ?thesis by (simp add: locals_trie(3))
    next
      case 2
      then show ?thesis by auto
    qed
  qed
  show "length (filter (\<lambda>d. remote d \<noteq> None) (fst (merge remotes locals False)))
     + length (snd (merge remotes locals False)) = length remotes"
  proof -
    have "filter (\<lambda>d. remote d \<noteq> None) m = m"
      using inv by (auto simp: filter_id_conv)
    moreover have "filter (\<lambda>d. remote d \<noteq> None) ?L = []"
      by (auto simp: filter_empty_conv)
    moreover have "length m + length c = length remotes" using inv by blast
    ultimately show ?thesis by (simp add: M)
  qed
qed

lemma merge_ignoring:
  "map remote (take (length remotes) (fst (merge remotes locals True))) = map Some remotes"
  "\<forall>i < length remotes. local_f (fst (merge remotes locals True) ! i) =
      (if Name (remotes ! i) \<in> Name ` set (take i remotes) then None
       else local_named locals (Name (remotes ! i)))"
  "\<forall>d \<in> set (drop (length remotes) (fst (merge remotes locals True))).
      remote d = None \<and> local_f d \<noteq> None"
  "distinct (map dirList_Name (drop (length remotes) (fst (merge remotes locals True))))"
  "set (map dirList_Name (drop (length remotes) (fst (merge remotes locals True))))
     = Inr ` (Name ` set locals - Name ` set remotes)"
  "snd (merge remotes locals True) = []"
proof -
  let ?lt = "merge_locals locals trie_New"
  obtain m c lt' where R: "merge_remotes remotes True ?lt trie_New [] [] = (m, c, lt')"
    by (cases "merge_remotes remotes True ?lt trie_New [] []") auto
  note inv = merge_remotes_ignoring_inv [OF R]
  note M = merge_split [OF R]
  let ?L = "map (\<lambda>l. \<lparr>remote = None, local_f = Some l\<rparr>) (trie_Walk lt')"
  have len: "length m = length remotes"
    using inv by (metis length_map)
  have tk: "take (length remotes) (fst (merge remotes locals True)) = m"
    by (simp add: M len)
  have dr: "drop (length remotes) (fst (merge remotes locals True)) = ?L"
    by (simp add: M len)
  have sub: "set lt' \<subseteq> set ?lt" using inv by blast
  have named: "\<forall>p \<in> set lt'. fst p = Name (snd p)"
    using sub locals_trie(2) [of locals] by blast
  have dist: "distinct (map fst lt')" using inv locals_trie(1) [of locals] by blast
  have Lnames: "map dirList_Name ?L = map (\<lambda>p. Inr (fst p)) lt'"
    by (rule local_only_names [OF named])
  have mo: "map_of lt' = (\<lambda>n. if n \<in> Name ` set remotes then None else local_named locals n)"
    using inv by (simp add: locals_trie(3) cong: if_cong)
  have keys: "fst ` set lt' = Name ` set locals - Name ` set remotes"
  proof -
    have "fst ` set lt' = dom (map_of lt')" by (rule keys_eq_dom)
    also have "\<dots> = dom (local_named locals) - Name ` set remotes"
      by (auto simp: mo dom_def split: if_splits)
    also have "dom (local_named locals) = Name ` set locals"
      using locals_trie(3,4) [of locals] keys_eq_dom [of ?lt] by simp
    finally show ?thesis .
  qed
  show "map remote (take (length remotes) (fst (merge remotes locals True))) = map Some remotes"
    unfolding tk using inv by blast
  show "\<forall>i < length remotes. local_f (fst (merge remotes locals True) ! i) =
      (if Name (remotes ! i) \<in> Name ` set (take i remotes) then None
       else local_named locals (Name (remotes ! i)))"
  proof (intro allI impI)
    fix i assume i: "i < length remotes"
    then have "fst (merge remotes locals True) ! i = m ! i"
      by (simp add: M nth_append len)
    moreover from inv i have "local_f (m ! i) =
        (if Name (remotes ! i) \<in> Name ` set (take i remotes) then None
         else map_of ?lt (Name (remotes ! i)))" by blast
    ultimately show "local_f (fst (merge remotes locals True) ! i) =
      (if Name (remotes ! i) \<in> Name ` set (take i remotes) then None
       else local_named locals (Name (remotes ! i)))"
      by (simp add: locals_trie(3))
  qed
  show "\<forall>d \<in> set (drop (length remotes) (fst (merge remotes locals True))).
      remote d = None \<and> local_f d \<noteq> None"
    unfolding dr by auto
  show "distinct (map dirList_Name (drop (length remotes) (fst (merge remotes locals True))))"
    unfolding dr Lnames by (rule distinct_map_Inr_fst [OF dist])
  show "set (map dirList_Name (drop (length remotes) (fst (merge remotes locals True))))
     = Inr ` (Name ` set locals - Name ` set remotes)"
    unfolding dr Lnames using keys by (simp add: image_image [symmetric])
  show "snd (merge remotes locals True) = []"
    using inv by (simp add: M)
qed

lemma merge_remotes_remote_set:
  assumes "merge_remotes rs ig lt rt [] [] = (m, c, lt')"
  shows "\<forall>d \<in> set m. remote d \<noteq> None"
proof (cases ig)
  case True
  with assms have "merge_remotes rs True lt rt [] [] = (m, c, lt')" by simp
  from merge_remotes_ignoring_inv [OF this] have "map remote m = map Some rs" by blast
  then have "remote ` set m = Some ` set rs"
    by (metis list.set_map)
  then show ?thesis by force
next
  case False
  with assms have "merge_remotes rs False lt rt [] [] = (m, c, lt')" by simp
  from merge_remotes_detecting_inv [OF this]
  have "\<forall>d \<in> set m. \<exists>r. remote d = Some r \<and> find (\<lambda>x. Name x = Name r) rs = Some r
                           \<and> local_f d = map_of lt (Name r)" by blast
  then show ?thesis by fastforce
qed

lemma ex_merge_ignoring:
  "merge [ex_r1, ex_r2] [ex_l1] True =
     ([\<lparr>remote = Some ex_r1, local_f = Some ex_l1\<rparr>, \<lparr>remote = Some ex_r2, local_f = None\<rparr>], [])"
  by (simp add: merge_def trie_New_def trie_Set_def trie_Get_def trie_Pop_def trie_Walk_def
      ex_r1_def ex_r2_def ex_l1_def file0_def)

lemma ex_merge_both_ignoring:
  "merge [ex_r1, ex_r2] [ex_l1, ex_l2] True =
     ([\<lparr>remote = Some ex_r1, local_f = Some ex_l1\<rparr>, \<lparr>remote = Some ex_r2, local_f = None\<rparr>,
       \<lparr>remote = None, local_f = Some ex_l2\<rparr>], [])"
  by (simp add: merge_def trie_New_def trie_Set_def trie_Get_def trie_Pop_def trie_Walk_def
      ex_r1_def ex_r2_def ex_l1_def ex_l2_def file0_def)

lemma ex_merge_both_detecting:
  "merge [ex_r1, ex_r2] [ex_l1, ex_l2] False =
     ([\<lparr>remote = Some ex_r1, local_f = Some ex_l1\<rparr>, \<lparr>remote = None, local_f = Some ex_l2\<rparr>],
      [ex_r1])"
  by (simp add: merge_def trie_New_def trie_Set_def trie_Get_def trie_Pop_def trie_Walk_def
      ex_r1_def ex_r2_def ex_l1_def ex_l2_def file0_def)

text \<open>
  C5. With \<open>ignoreClashes\<close> off, the merged list has exactly one pair per name
  that occurs in either stream: the names of the pairs are distinct and are the
  names of the remote and local children; a pair with a remote side carries
  the first remote child of its name together with the local entry of that
  name; and every remote child is either in a pair or answered by one reported
  clash. With \<open>ignoreClashes\<close> on, every remote child gets a pair of its own, in stream
  order: the first remote child of a name is paired with the local entry of
  that name, each later remote child of the same name is emitted with no local
  side; then follows one local-only pair for each local name that no remote
  child carries; no clash is reported.
\<close>

theorem merge_emission:
  "(let detected = merge remotes locals False
    in distinct (map dirList_Name (fst detected))
       \<and> set (map dirList_Name (fst detected)) = Inr ` Name ` (set remotes \<union> set locals)
       \<and> (\<forall>d \<in> set (fst detected).
             case remote d of
               None \<Rightarrow> local_f d \<noteq> None
             | Some r \<Rightarrow> find (\<lambda>x. Name x = Name r) remotes = Some r
                         \<and> local_f d = local_named locals (Name r))
       \<and> length (filter (\<lambda>d. remote d \<noteq> None) (fst detected)) + length (snd detected)
           = length remotes)
   \<and> (let ignored = merge remotes locals True;
          rest = drop (length remotes) (fst ignored)
      in map remote (take (length remotes) (fst ignored)) = map Some remotes
         \<and> (\<forall>i < length remotes.
               local_f (fst ignored ! i) =
                 (if Name (remotes ! i) \<in> Name ` set (take i remotes) then None
                  else local_named locals (Name (remotes ! i))))
         \<and> (\<forall>d \<in> set rest. remote d = None \<and> local_f d \<noteq> None)
         \<and> distinct (map dirList_Name rest)
         \<and> set (map dirList_Name rest) = Inr ` (Name ` set locals - Name ` set remotes)
         \<and> snd ignored = [])"
  unfolding Let_def
  using merge_detecting [of remotes locals] merge_ignoring [of remotes locals]
  by blast

theorem merge_emission_witness:
  "\<lparr>remote = Some ex_r1, local_f = Some ex_l1\<rparr> \<in> set (fst (merge [ex_r1, ex_r2] [ex_l1, ex_l2] False))
   \<and> find (\<lambda>x. Name x = Name ex_r1) [ex_r1, ex_r2] = Some ex_r1
   \<and> local_named [ex_l1, ex_l2] (Name ex_r1) = Some ex_l1
   \<and> (1::nat) < length [ex_r1, ex_r2]
   \<and> Name ([ex_r1, ex_r2] ! 1) \<in> Name ` set (take 1 [ex_r1, ex_r2])
   \<and> local_f (fst (merge [ex_r1, ex_r2] [ex_l1, ex_l2] True) ! 1) = None
   \<and> \<lparr>remote = None, local_f = Some ex_l2\<rparr>
        \<in> set (drop (length [ex_r1, ex_r2]) (fst (merge [ex_r1, ex_r2] [ex_l1, ex_l2] True)))
   \<and> distinct (map dirList_Name (fst (merge [ex_r1, ex_r2] [ex_l1, ex_l2] False)))"
proof -
  let ?rs = "[ex_r1, ex_r2]" and ?ls = "[ex_l1, ex_l2]"
  let ?d = "\<lparr>remote = Some ex_r1, local_f = Some ex_l1\<rparr>"
  have a: "(1::nat) < length ?rs" by simp
  have b: "Name (?rs ! 1) \<in> Name ` set (take 1 ?rs)"
    by (simp add: ex_r1_def ex_r2_def)
  have c: "?d \<in> set (fst (merge ?rs ?ls False))"
    by (simp add: ex_merge_both_detecting)
  have e: "\<lparr>remote = None, local_f = Some ex_l2\<rparr> \<in> set (drop (length ?rs) (fst (merge ?rs ?ls True)))"
    by (simp add: ex_merge_both_ignoring)
  note T = merge_emission [of ?rs ?ls, unfolded Let_def]
  from T have "\<forall>d \<in> set (fst (merge ?rs ?ls False)).
             case remote d of
               None \<Rightarrow> local_f d \<noteq> None
             | Some r \<Rightarrow> find (\<lambda>x. Name x = Name r) ?rs = Some r
                         \<and> local_f d = local_named ?ls (Name r)"
    by blast
  with c have "case remote ?d of
               None \<Rightarrow> local_f ?d \<noteq> None
             | Some r \<Rightarrow> find (\<lambda>x. Name x = Name r) ?rs = Some r
                         \<and> local_f ?d = local_named ?ls (Name r)"
    by blast
  then have f: "find (\<lambda>x. Name x = Name ex_r1) ?rs = Some ex_r1"
    and g: "local_named ?ls (Name ex_r1) = Some ex_l1"
    by simp_all
  from T have "\<forall>i < length ?rs.
               local_f (fst (merge ?rs ?ls True) ! i) =
                 (if Name (?rs ! i) \<in> Name ` set (take i ?rs) then None
                  else local_named ?ls (Name (?rs ! i)))"
    and d: "distinct (map dirList_Name (fst (merge ?rs ?ls False)))"
    by blast+
  with a b have h: "local_f (fst (merge ?rs ?ls True) ! 1) = None"
    by presburger
  from a b c d e f g h show ?thesis by blast
qed

text \<open>
  Two remote children named \<open>photo.jpg\<close> and one local file of that name, with
  \<open>ignoreClashes\<close> on: the second remote child is emitted too, so two pairs
  carry the same name.
\<close>

theorem merge_ignoring_keeps_duplicates_counterexample:
  "Name ex_r1 = Name ex_r2
   \<and> fst (merge [ex_r1, ex_r2] [ex_l1] True) =
       [\<lparr>remote = Some ex_r1, local_f = Some ex_l1\<rparr>, \<lparr>remote = Some ex_r2, local_f = None\<rparr>]
   \<and> \<not> distinct (map dirList_Name (fst (merge [ex_r1, ex_r2] [ex_l1] True)))"
  by (simp add: ex_merge_ignoring dirList_Name_def) (simp add: ex_r1_def ex_r2_def)

text \<open>
  C10. Every pair that \<open>merge\<close> emits has a remote or a local side, so \<open>Name\<close>
  of it returns a name and never dereferences nil.
\<close>

theorem merge_pairs_have_a_side:
  "\<forall>d \<in> set (fst (merge remotes locals ignoreClashes)).
     (remote d \<noteq> None \<or> local_f d \<noteq> None) \<and> (\<exists>n. dirList_Name d = Inr n)"
proof
  fix d assume d: "d \<in> set (fst (merge remotes locals ignoreClashes))"
  obtain m c lt' where R:
    "merge_remotes remotes ignoreClashes (merge_locals locals trie_New) trie_New [] [] = (m, c, lt')"
    by (cases "merge_remotes remotes ignoreClashes (merge_locals locals trie_New) trie_New [] []") auto
  have m: "\<forall>d \<in> set m. remote d \<noteq> None"
    by (rule merge_remotes_remote_set [OF R])
  from d consider "d \<in> set m" | "remote d = None \<and> local_f d \<noteq> None"
    by (auto simp: merge_split [OF R])
  then show "(remote d \<noteq> None \<or> local_f d \<noteq> None) \<and> (\<exists>n. dirList_Name d = Inr n)"
  proof cases
    case 1
    with m have "remote d \<noteq> None" by blast
    then show ?thesis by (auto simp: dirList_Name_def split: option.splits)
  next
    case 2
    then show ?thesis by (auto simp: dirList_Name_def split: option.splits)
  qed
qed

theorem merge_pairs_have_a_side_witness:
  "\<lparr>remote = Some ex_r2, local_f = None\<rparr> \<in> set (fst (merge [ex_r1, ex_r2] [ex_l1] True))
   \<and> (\<exists>n. dirList_Name \<lparr>remote = Some ex_r2, local_f = None\<rparr> = Inr n)"
proof -
  have h: "\<lparr>remote = Some ex_r2, local_f = None\<rparr> \<in> set (fst (merge [ex_r1, ex_r2] [ex_l1] True))"
    by (simp add: ex_merge_ignoring)
  show ?thesis
    using merge_pairs_have_a_side [of "[ex_r1, ex_r2]" "[ex_l1]" True] h by blast
qed

section \<open>Properties of the walker and of file construction\<close>

lemma list_loop_filter:
  "list_loop dk absPath hidden ignore f =
     concat (map (list_send dk absPath)
       (filter (\<lambda>file. fi_Name file \<noteq> GDDirSuffix
                  \<and> \<not> (case ignore of None \<Rightarrow> False | Some re \<Rightarrow> re (fi_Name file))
                  \<and> \<not> isHidden (fi_Name file) hidden) f))"
  by (induction f) auto

text \<open>
  Where the ignore expression is applied. The check on an explicit target
  fails with the ignore error exactly when the expression matches
  \<open>relToRoot\<close>. The walker sends an entry on exactly when its name is not the
  metadata directory's, the expression does not match its bare name, and it is
  not hidden; the directory's root-relative path \<open>p\<close>, which the walker is
  given, takes no part in the match.
\<close>

lemma ignore_regexp_subjects:
  "(resolveToLocalFile dk (Some re) relToRoot fsPath = Inl (ErrIgnored relToRoot)) = re relToRoot
   \<and> list_dir dk p hidden (Some re) =
       (case ReadDir dk (AbsPathOf dk p) of
          Inl err \<Rightarrow> Inl err
        | Inr f \<Rightarrow>
            Inr (concat (map (list_send dk (AbsPathOf dk p))
                   (filter (\<lambda>file. fi_Name file \<noteq> GDDirSuffix \<and> \<not> re (fi_Name file)
                              \<and> \<not> isHidden (fi_Name file) hidden) f))))"
  by (simp add: resolveToLocalFile_def list_dir_def list_loop_filter Let_def
      split: stat_result.splits sum.splits)

text \<open>
  C8. Every application of the ignore expression should match it against the
  root-relative path of the entry, in the check on an explicit target and in
  the walker alike. With an expression that matches the root-relative path
  \<open>/docs/b.txt\<close> and nothing else, the check on the explicit target
  \<open>/docs/b.txt\<close> refuses it, and the walker of \<open>/docs\<close> still sends
  \<open>b.txt\<close> on: it matches the expression against the bare name.
\<close>

theorem list_emits_ignored_path:
  "ex_ignore (joined ''/docs'' (fi_Name ex_fileinfo))
   \<and> resolveToLocalFile ex_disk (Some ex_ignore) ''/docs/b.txt'' ''/root/docs/b.txt''
       = Inl (ErrIgnored ''/docs/b.txt'')
   \<and> list_dir ex_disk ''/docs'' False (Some ex_ignore)
       = Inr [NewLocalFile ''/root/docs/b.txt'' ex_fileinfo]"
  by (simp add: ex_ignore_def joined_def ex_fileinfo_def list_dir_def ex_disk_def list_send_def
      ModeSymlink_def GDDirSuffix_def isHidden_def resolveToLocalFile_def Let_def)

text \<open>
  C9. A constructed file has the size, the directory flag and the checksum of
  its source: \<open>NewLocalFile\<close> copies size and directory flag from the stat result
  and leaves the checksum empty; \<open>NewRemoteFile\<close> copies size and checksum from
  the API record and sets the directory flag from the MIME type. So a directory
  has size 0 when its source reports 0. For a directory, \<open>md5Checksum\<close> returns
  the empty string, opens nothing and stores nothing.
\<close>

theorem constructed_file_fields:
  "Size (NewLocalFile absPath fi) = fi_Size fi
   \<and> IsDir (NewLocalFile absPath fi) = fi_IsDir fi
   \<and> Md5Checksum (NewLocalFile absPath fi) = ''''
   \<and> Size (NewRemoteFile time_Parse urlToPath rf) = FileSize rf
   \<and> IsDir (NewRemoteFile time_Parse urlToPath rf) = (MimeType_r rf = DriveFolderMimeType)
   \<and> Md5Checksum (NewRemoteFile time_Parse urlToPath rf) = Md5Checksum_r rf
   \<and> (IsDir f \<longrightarrow> md5Checksum fs (Some f) = ('''', Some f, []))"
  by (simp add: NewLocalFile_def NewRemoteFile_def md5Checksum_def Let_def)

theorem constructed_file_fields_witness:
  "IsDir (NewRemoteFile ex_parse ex_urlToPath ex_api_folder)
   \<and> Size (NewRemoteFile ex_parse ex_urlToPath ex_api_folder) = 0
   \<and> IsDir (NewLocalFile ''/root/docs'' ex_dirinfo)
   \<and> md5Checksum ex_blobs (Some (NewLocalFile ''/root/docs'' ex_dirinfo))
       = ('''', Some (NewLocalFile ''/root/docs'' ex_dirinfo), [])"
proof -
  have d: "IsDir (NewLocalFile ''/root/docs'' ex_dirinfo)"
    by (simp add: NewLocalFile_def fi_IsDir_def ex_dirinfo_def ModeDir_def)
  have r: "MimeType_r ex_api_folder = DriveFolderMimeType" "FileSize ex_api_folder = 0"
    by (simp_all add: ex_api_folder_def)
  show ?thesis
    using constructed_file_fields [of "''/root/docs''" ex_dirinfo ex_parse ex_urlToPath
        ex_api_folder "NewLocalFile ''/root/docs'' ex_dirinfo" ex_blobs] d r
    by simp
qed

text \<open>
  The stat result of a directory on a disk that reports 4096 bytes for it.
\<close>

theorem directory_size_counterexample:
  "IsDir (NewLocalFile ''/root/docs'' ex_dirinfo)
   \<and> Size (NewLocalFile ''/root/docs'' ex_dirinfo) = 4096"
  by (simp add: NewLocalFile_def fi_IsDir_def ex_dirinfo_def ModeDir_def)

section \<open>Properties of the quota gate\<close>

subsection \<open>Rounding\<close>

lemma round_half_even_less:
  assumes "x < of_int k - 1 / 2"
  shows "round_half_even x < k"
proof -
  have a: "of_int \<lfloor>x\<rfloor> \<le> x" by simp
  have "of_int \<lfloor>x\<rfloor> < (of_int k :: rat)" using a assms by linarith
  then have b: "\<lfloor>x\<rfloor> < k" by simp
  show ?thesis
  proof (cases "x - of_int \<lfloor>x\<rfloor> < 1 / 2")
    case True
    then show ?thesis using b by (simp add: round_half_even_def)
  next
    case False
    then have "of_int \<lfloor>x\<rfloor> + 1 < (of_int k :: rat)" using assms by linarith
    then have "of_int (\<lfloor>x\<rfloor> + 1) < (of_int k :: rat)" by simp
    then have "\<lfloor>x\<rfloor> + 1 < k" by (simp only: of_int_less_iff)
    then show ?thesis using b by (simp add: round_half_even_def Let_def)
  qed
qed

lemma round_half_even_ge:
  assumes "of_int k - 1 / 2 < x"
  shows "k \<le> round_half_even x"
proof -
  have a: "x < of_int \<lfloor>x\<rfloor> + 1" by linarith
  then have "of_int k < of_int \<lfloor>x\<rfloor> + (2 :: rat)" using assms by linarith
  then have "of_int k < (of_int (\<lfloor>x\<rfloor> + 2) :: rat)" by simp
  then have b: "k < \<lfloor>x\<rfloor> + 2" by (simp only: of_int_less_iff)
  show ?thesis
  proof (cases "k \<le> \<lfloor>x\<rfloor>")
    case True
    then show ?thesis by (simp add: round_half_even_def Let_def)
  next
    case False
    with b have k: "k = \<lfloor>x\<rfloor> + 1" by simp
    then have "1 / 2 < x - of_int \<lfloor>x\<rfloor>" using assms by simp
    then show ?thesis using k by (simp add: round_half_even_def Let_def)
  qed
qed

lemma round_half_even_of_int: "round_half_even (of_int n) = n"
  by (simp add: round_half_even_def)


lemma ilog2_bounds:
  assumes "0 < x"
  shows "2 powi (ilog2 x) \<le> x \<and> x < 2 powi (ilog2 x + 1)"
proof -
  obtain p q where pq: "quotient_of x = (p, q)" by (cases "quotient_of x") auto
  then have q: "0 < q" by (rule quotient_of_denom_pos)
  have x: "x = of_int p / of_int q" using pq by (rule quotient_of_div)
  with assms q have p: "0 < p" by (simp add: zero_less_divide_iff)
  let ?e = "bitlen p - bitlen q"
  from bitlen_bounds [OF p] have pb: "2 ^ nat (bitlen p - 1) \<le> p" "p < 2 ^ nat (bitlen p)" by auto
  from bitlen_bounds [OF q] have qb: "2 ^ nat (bitlen q - 1) \<le> q" "q < 2 ^ nat (bitlen q)" by auto
  have bp: "1 \<le> bitlen p" using p bitlen_eq_zero_iff [of p] bitlen_nonneg [of p] by linarith
  have bq: "1 \<le> bitlen q" using q bitlen_eq_zero_iff [of q] bitlen_nonneg [of q] by linarith
  have P1: "(2::rat) powi (bitlen p - 1) \<le> of_int p"
  proof -
    have "(of_int (2 ^ nat (bitlen p - 1)) :: rat) \<le> of_int p" using pb(1) by (simp only: of_int_le_iff)
    moreover have "(2::rat) powi (bitlen p - 1) = 2 ^ nat (bitlen p - 1)"
      using bp by (simp add: power_int_def)
    ultimately show ?thesis by simp
  qed
  have P2: "of_int p < (2::rat) powi (bitlen p)"
  proof -
    have "(of_int p :: rat) < of_int (2 ^ nat (bitlen p))" using pb(2) by (simp only: of_int_less_iff)
    moreover have "(2::rat) powi (bitlen p) = 2 ^ nat (bitlen p)"
      using bp by (simp add: power_int_def)
    ultimately show ?thesis by simp
  qed
  have Q1: "(2::rat) powi (bitlen q - 1) \<le> of_int q"
  proof -
    have "(of_int (2 ^ nat (bitlen q - 1)) :: rat) \<le> of_int q" using qb(1) by (simp only: of_int_le_iff)
    moreover have "(2::rat) powi (bitlen q - 1) = 2 ^ nat (bitlen q - 1)"
      using bq by (simp add: power_int_def)
    ultimately show ?thesis by simp
  qed
  have Q2: "of_int q < (2::rat) powi (bitlen q)"
  proof -
    have "(of_int q :: rat) < of_int (2 ^ nat (bitlen q))" using qb(2) by (simp only: of_int_less_iff)
    moreover have "(2::rat) powi (bitlen q) = 2 ^ nat (bitlen q)"
      using bq by (simp add: power_int_def)
    ultimately show ?thesis by simp
  qed
  have qpos: "(0::rat) < of_int q" using q by simp
  have lower: "(2::rat) powi (?e - 1) < x"
  proof -
    have "(2::rat) powi (?e - 1) * of_int q < 2 powi (?e - 1) * 2 powi (bitlen q)"
      using Q2 by (simp add: mult_strict_left_mono)
    also have "\<dots> = 2 powi (bitlen p - 1)"
      by (simp add: power_int_add [symmetric])
    also have "\<dots> \<le> of_int p" by (rule P1)
    finally show ?thesis using qpos by (simp add: x pos_less_divide_eq)
  qed
  have upper: "x < (2::rat) powi (?e + 1)"
  proof -
    have "of_int p < (2::rat) powi (bitlen p)" by (rule P2)
    also have "\<dots> = 2 powi (?e + 1) * 2 powi (bitlen q - 1)"
      by (simp add: power_int_add [symmetric])
    also have "\<dots> \<le> 2 powi (?e + 1) * of_int q"
      using Q1 by (simp add: mult_left_mono)
    finally show ?thesis using qpos by (simp add: x pos_divide_less_eq)
  qed
  show ?thesis
  proof (cases "2 powi ?e \<le> x")
    case True
    then have "ilog2 x = ?e" by (simp add: ilog2_def pq Let_def)
    then show ?thesis using True upper by simp
  next
    case False
    then have "ilog2 x = ?e - 1" by (simp add: ilog2_def pq Let_def)
    then show ?thesis using False lower by simp
  qed
qed

lemma ilog2_unique:
  assumes "2 powi E \<le> x" and "x < 2 powi (E + 1)"
  shows "ilog2 x = E"
proof -
  have "(0::rat) < 2 powi E" by simp
  with assms(1) have pos: "0 < x" by linarith
  note b = ilog2_bounds [OF pos]
  have "\<not> E + 1 \<le> ilog2 x"
  proof
    assume "E + 1 \<le> ilog2 x"
    then have "(2::rat) powi (E + 1) \<le> 2 powi (ilog2 x)"
      by (intro power_int_increasing) simp_all
    with b assms(2) show False by linarith
  qed
  moreover have "\<not> ilog2 x + 1 \<le> E"
  proof
    assume "ilog2 x + 1 \<le> E"
    then have "(2::rat) powi (ilog2 x + 1) \<le> 2 powi E"
      by (intro power_int_increasing) simp_all
    with b assms(1) show False by linarith
  qed
  ultimately show ?thesis by linarith
qed

lemma float64_round_binade:
  assumes "2 powi E \<le> x" and "x < 2 powi (E + 1)"
  shows "float64_round x = of_int (round_half_even (x / 2 powi (E - 52))) * 2 powi (E - 52)"
proof -
  have "(0::rat) < 2 powi E" by simp
  with assms(1) have pos: "0 < x" by linarith
  then have "\<bar>x\<bar> = x" "sgn x = 1" "x \<noteq> 0" by simp_all
  then show ?thesis
    by (simp add: float64_round_def Let_def ilog2_unique [OF assms])
qed

lemma powi_consts:
  "(2::rat) powi (-1) = 1 / 2"
  "(2::rat) powi (-2) = 1 / 4"
  "(2::rat) powi (-53) = 1 / 9007199254740992"
  "(2::rat) powi (-54) = 1 / 18014398509481984"
  by (simp_all add: inverse_eq_divide)

lemma float64_round_half:
  assumes "1 / 2 \<le> x" and "x < 1"
  shows "float64_round x = of_int (round_half_even (x * 9007199254740992)) / 9007199254740992"
proof -
  have "float64_round x = of_int (round_half_even (x / 2 powi (-1 - 52))) * 2 powi (-1 - 52)"
    using assms by (intro float64_round_binade) (simp_all add: powi_consts)
  then show ?thesis by (simp add: powi_consts)
qed

lemma float64_round_quarter:
  assumes "1 / 4 \<le> x" and "x < 1 / 2"
  shows "float64_round x = of_int (round_half_even (x * 18014398509481984)) / 18014398509481984"
proof -
  have "float64_round x = of_int (round_half_even (x / 2 powi (-2 - 52))) * 2 powi (-2 - 52)"
    using assms by (intro float64_round_binade) (simp_all add: powi_consts)
  then show ?thesis by (simp add: powi_consts)
qed

lemma float64_round_small:
  assumes "0 < x" and "x < 1 / 4"
  shows "float64_round x \<le> 1 / 4"
proof -
  let ?E = "ilog2 x"
  note b = ilog2_bounds [OF assms(1)]
  have E: "?E + 1 \<le> -2"
  proof (rule ccontr)
    assume "\<not> ?E + 1 \<le> -2"
    then have "-2 \<le> ?E" by simp
    then have "(2::rat) powi (-2) \<le> 2 powi ?E"
      by (intro power_int_increasing) simp_all
    with b assms(2) show False by (simp add: powi_consts)
  qed
  let ?u = "(2::rat) powi (?E - 52)"
  have u: "0 < ?u" by simp
  have split: "(2::rat) powi (?E + 1) = 9007199254740992 * ?u"
  proof -
    have "(2::rat) powi (53 + (?E - 52)) = 2 powi 53 * 2 powi (?E - 52)"
      by (rule power_int_add) simp
    moreover have "53 + (?E - 52) = ?E + 1" by simp
    ultimately show ?thesis by simp
  qed
  define y where "y = x / ?u"
  have "y < 9007199254740992"
    unfolding y_def using b u by (simp add: split pos_divide_less_eq)
  then have "y < of_int 9007199254740993 - 1 / 2" by simp
  then have "round_half_even y < 9007199254740993" by (rule round_half_even_less)
  then have "round_half_even y \<le> 9007199254740992" by simp
  then have "(of_int (round_half_even y) :: rat) \<le> of_int 9007199254740992"
    by (simp only: of_int_le_iff)
  then have "of_int (round_half_even y) * ?u \<le> 9007199254740992 * ?u"
    using u by (simp add: mult_right_mono)
  also have "\<dots> = 2 powi (?E + 1)" by (simp add: split)
  also have "\<dots> \<le> 2 powi (-2)" using E by (intro power_int_increasing) simp_all
  finally have "of_int (round_half_even (x / ?u)) * ?u \<le> 1 / 4"
    by (simp add: powi_consts y_def)
  moreover have "float64_round x = of_int (round_half_even (x / ?u)) * ?u"
    using b by (intro float64_round_binade) simp_all
  ultimately show ?thesis by simp
qed

lemma float64_round_int_exact:
  assumes "0 \<le> n" and "n < 9007199254740992"
  shows "float64_round (of_int n) = of_int n"
proof (cases "n = 0")
  case True
  then show ?thesis by (simp add: float64_round_def)
next
  case False
  with assms have n: "0 < n" by simp
  let ?x = "of_int n :: rat"
  have pos: "0 < ?x" using n by simp
  let ?E = "ilog2 ?x"
  note b = ilog2_bounds [OF pos]
  have E: "?E \<le> 52"
  proof (rule ccontr)
    assume "\<not> ?E \<le> 52"
    then have "53 \<le> ?E" by simp
    then have "(2::rat) powi 53 \<le> 2 powi ?E"
      by (intro power_int_increasing) simp_all
    with b have "(9007199254740992::rat) \<le> of_int n" by simp
    then have "(of_int 9007199254740992::rat) \<le> of_int n" by simp
    then have "9007199254740992 \<le> n" by (simp only: of_int_le_iff)
    with assms(2) show False by simp
  qed
  let ?k = "nat (52 - ?E)"
  have u: "(2::rat) powi (?E - 52) = 1 / 2 ^ ?k"
  proof -
    have "(2::rat) powi (?E - 52) = inverse (2 powi (52 - ?E))"
      using power_int_minus [of "2::rat" "52 - ?E"] by simp
    also have "(2::rat) powi (52 - ?E) = 2 ^ ?k" using E by (simp add: power_int_def)
    finally show ?thesis by (simp add: divide_inverse)
  qed
  have "?x * 2 ^ ?k = of_int (n * 2 ^ ?k)" by simp
  then have r: "round_half_even (?x * 2 ^ ?k) = n * 2 ^ ?k"
    by (simp only: round_half_even_of_int)
  have "float64_round ?x = of_int (round_half_even (?x / 2 powi (?E - 52))) * 2 powi (?E - 52)"
    using b by (intro float64_round_binade) simp_all
  then show ?thesis by (simp add: r u)
qed

lemma float64_round_zero: "float64_round 0 = 0"
  by (simp add: float64_round_def)

lemma float64_half: "float64_round (1 / 2) = 1 / 2"
  by code_simp

lemma float64_four_fifths: "float64_round (4 / 5) = 3602879701896397 / 4503599627370496"
  by code_simp

subsection \<open>The two thresholds on exact operands\<close>

lemma ratio_less_iff:
  assumes "0 < b" and "0 < d"
  shows "((of_int a / of_int b :: rat) < of_int c / of_int d) = (a * d < c * b)"
proof -
  have "((of_int a / of_int b :: rat) < of_int c / of_int d)
          = ((of_int a * of_int d :: rat) < of_int c * of_int b)"
    using assms by (simp add: frac_less_eq zero_less_mult_iff field_simps)
  also have "\<dots> = ((of_int (a * d) :: rat) < of_int (c * b))" by simp
  also have "\<dots> = (a * d < c * b)" by (simp only: of_int_less_iff)
  finally show ?thesis .
qed

lemma float64_ratio_cases:
  fixes a b :: int
  assumes "0 \<le> a" and "a < b" and "b < 9007199254740992"
  defines "x \<equiv> (of_int a / of_int b :: rat)"
  shows "(float64_round x < 1 / 2) = (2 * a < b)"
    and "(float64_round x < 3602879701896397 / 4503599627370496) = (5 * a < 4 * b)"
proof -
  from assms(1,2) have b: "0 < b" by simp
  have lt: "(x < of_int c / of_int d) = (a * d < c * b)" if "0 < d" for c d
    unfolding x_def using that by (rule ratio_less_iff [OF b])
  have x0: "0 \<le> x" unfolding x_def using assms(1) b by simp
  have x1: "x < 1" using lt [of 1 1] assms(2) by simp
  have half: "(x < 1 / 2) = (2 * a < b)" using lt [of 2 1] by (simp add: mult.commute)
  have quarter: "(x < 1 / 4) = (4 * a < b)" using lt [of 4 1] by (simp add: mult.commute)
  consider (zero) "x = 0" | (small) "0 < x" "x < 1 / 4" | (quarter) "1 / 4 \<le> x" "x < 1 / 2"
    | (half) "1 / 2 \<le> x"
    using x0 by linarith
  then have "(float64_round x < 1 / 2) = (2 * a < b)
       \<and> (float64_round x < 3602879701896397 / 4503599627370496) = (5 * a < 4 * b)"
  proof cases
    case zero
    then have "a = 0" unfolding x_def using b by simp
    then show ?thesis using b zero by (simp add: float64_round_zero)
  next
    case small
    from float64_round_small [OF small] have "float64_round x \<le> 1 / 4" .
    moreover have "4 * a < b" using small(2) quarter by simp
    ultimately show ?thesis using assms(1) by simp
  next
    case quarter
    let ?y = "x * 18014398509481984"
    have q: "float64_round x = of_int (round_half_even ?y) / 18014398509481984"
      by (rule float64_round_quarter [OF quarter])
    have ab: "2 * a < b" using quarter(2) half by simp
    have "a * 36028797018963968 < 18014398509481983 * b"
      using ab assms(3) by linarith
    then have "(of_int (a * 18014398509481984) / of_int b :: rat)
                 < of_int 18014398509481983 / of_int 2"
      using ratio_less_iff [OF b, of 2 "a * 18014398509481984" 18014398509481983] by simp
    then have "?y < of_int 9007199254740992 - 1 / 2" by (simp add: x_def)
    then have "round_half_even ?y < 9007199254740992" by (rule round_half_even_less)
    then have "(of_int (round_half_even ?y) :: rat) < of_int 9007199254740992"
      by (simp only: of_int_less_iff)
    then have "float64_round x < 1 / 2" by (simp add: q)
    then show ?thesis using ab assms(1) by simp
  next
    case half
    let ?y = "x * 9007199254740992"
    have q: "float64_round x = of_int (round_half_even ?y) / 9007199254740992"
      by (rule float64_round_half [OF half x1])
    have nab: "\<not> 2 * a < b" using half \<open>(x < 1 / 2) = (2 * a < b)\<close> by simp
    have "of_int 4503599627370496 - 1 / 2 < ?y" using half by simp
    then have "4503599627370496 \<le> round_half_even ?y" by (rule round_half_even_ge)
    then have "(of_int 4503599627370496 :: rat) \<le> of_int (round_half_even ?y)"
      by (simp only: of_int_le_iff)
    then have 1: "\<not> float64_round x < 1 / 2" by (simp add: q)
    have 2: "(float64_round x < 3602879701896397 / 4503599627370496) = (5 * a < 4 * b)"
    proof (cases "5 * a < 4 * b")
      case True
      then have "a * 18014398509481984 < 14411518807585587 * b"
        using assms(3) by linarith
      then have "(of_int (a * 9007199254740992) / of_int b :: rat)
                   < of_int 14411518807585587 / of_int 2"
        using ratio_less_iff [OF b, of 2 "a * 9007199254740992" 14411518807585587] by simp
      then have "?y < of_int 7205759403792794 - 1 / 2" by (simp add: x_def)
      then have "round_half_even ?y < 7205759403792794" by (rule round_half_even_less)
      then have "(of_int (round_half_even ?y) :: rat) < of_int 7205759403792794"
        by (simp only: of_int_less_iff)
      then have "float64_round x < 3602879701896397 / 4503599627370496" by (simp add: q)
      with True show ?thesis by simp
    next
      case False
      then have "14411518807585587 * b < a * 18014398509481984"
        using b by linarith
      then have "(of_int 14411518807585587 / of_int 2 :: rat)
                   < of_int (a * 9007199254740992) / of_int b"
        using ratio_less_iff [of 2 b 14411518807585587 "a * 9007199254740992"] b by simp
      then have "of_int 7205759403792794 - 1 / 2 < ?y" by (simp add: x_def)
      then have "7205759403792794 \<le> round_half_even ?y" by (rule round_half_even_ge)
      then have "(of_int 7205759403792794 :: rat) \<le> of_int (round_half_even ?y)"
        by (simp only: of_int_le_iff)
      then have "\<not> float64_round x < 3602879701896397 / 4503599627370496" by (simp add: q)
      with False show ?thesis by simp
    qed
    show ?thesis using 1 2 nab by simp
  qed
  then show "(float64_round x < 1 / 2) = (2 * a < b)"
    and "(float64_round x < 3602879701896397 / 4503599627370496) = (5 * a < 4 * b)"
    by simp_all
qed

lemma percentage_exact:
  assumes "0 \<le> a" and "a < b" and "b < 9007199254740992"
  shows "(float64_div (float64_of_int a) (float64_of_int b) < float64_round (1 / 2)) = (2 * a < b)"
    and "(float64_div (float64_of_int a) (float64_of_int b) < float64_round (4 / 5)) = (5 * a < 4 * b)"
proof -
  have a: "float64_of_int a = of_int a"
    unfolding float64_of_int_def using assms by (intro float64_round_int_exact) simp_all
  have b: "float64_of_int b = of_int b"
    unfolding float64_of_int_def using assms by (intro float64_round_int_exact) simp_all
  show "(float64_div (float64_of_int a) (float64_of_int b) < float64_round (1 / 2)) = (2 * a < b)"
    unfolding a b float64_div_def float64_half by (rule float64_ratio_cases(1) [OF assms])
  show "(float64_div (float64_of_int a) (float64_of_int b) < float64_round (4 / 5)) = (5 * a < 4 * b)"
    unfolding a b float64_div_def float64_four_fifths by (rule float64_ratio_cases(2) [OF assms])
qed

subsection \<open>The status\<close>

text \<open>
  C7. \<open>QuotaStatus\<close> returns \<open>Unknown\<close> when the query is negative, when the
  \<open>About\<close> call fails, and when the total is below 1. Otherwise, with
  \<open>toBeUsed\<close> the wrapped sum of query and used bytes, it returns \<open>Exceeded\<close>
  exactly when \<open>toBeUsed\<close> is at least the total, never \<open>Unknown\<close>, and no error;
  below the total the status is \<open>Barely\<close>, \<open>HalfwayExceeded\<close> or
  \<open>AlmostExceeded\<close> as the \<open>float64\<close> quotient is below \<open>0.5\<close>, below \<open>0.8\<close>, or
  neither; and for \<open>0 \<le> toBeUsed\<close> and a total below \<open>2 ^ 53\<close> these are the
  comparisons of the exact ratio with one half and four fifths.
\<close>

theorem QuotaStatus_classifies:
  "(query < 0 \<longrightarrow> QuotaStatus rem_About query = (Unknown, None))
   \<and> (0 \<le> query \<longrightarrow> QuotaStatus (Inl err) query = (Unknown, Some err))
   \<and> (0 \<le> query \<and> QuotaBytesTotal about < 1 \<longrightarrow>
        QuotaStatus (Inr about) query = (Unknown, Some ErrQuotaBytesTotal))
   \<and> (0 \<le> query \<and> 1 \<le> QuotaBytesTotal about \<longrightarrow>
        (let toBeUsed = int64_add query (QuotaBytesUsed about);
             status = fst (QuotaStatus (Inr about) query)
         in (status = Exceeded) = (QuotaBytesTotal about \<le> toBeUsed)
            \<and> status \<noteq> Unknown
            \<and> snd (QuotaStatus (Inr about) query) = None
            \<and> (toBeUsed < QuotaBytesTotal about \<longrightarrow>
                  status =
                    (let percentage = float64_div (float64_of_int toBeUsed)
                                        (float64_of_int (QuotaBytesTotal about))
                     in if percentage < float64_round (1 / 2) then Barely
                        else if percentage < float64_round (4 / 5) then HalfwayExceeded
                        else AlmostExceeded))
            \<and> (0 \<le> toBeUsed \<and> toBeUsed < QuotaBytesTotal about
                 \<and> QuotaBytesTotal about < 2 ^ 53 \<longrightarrow>
                  status =
                    (if 2 * toBeUsed < QuotaBytesTotal about then Barely
                     else if 5 * toBeUsed < 4 * QuotaBytesTotal about then HalfwayExceeded
                     else AlmostExceeded))))"
proof -
  have 1: "query < 0 \<longrightarrow> QuotaStatus rem_About query = (Unknown, None)"
    by (simp add: QuotaStatus_def)
  have 2: "0 \<le> query \<longrightarrow> QuotaStatus (Inl err) query = (Unknown, Some err)"
    by (simp add: QuotaStatus_def)
  have 3: "0 \<le> query \<and> QuotaBytesTotal about < 1 \<longrightarrow>
        QuotaStatus (Inr about) query = (Unknown, Some ErrQuotaBytesTotal)"
    by (simp add: QuotaStatus_def)
  have 4: "(let toBeUsed = int64_add query (QuotaBytesUsed about);
             status = fst (QuotaStatus (Inr about) query)
         in (status = Exceeded) = (QuotaBytesTotal about \<le> toBeUsed)
            \<and> status \<noteq> Unknown
            \<and> snd (QuotaStatus (Inr about) query) = None
            \<and> (toBeUsed < QuotaBytesTotal about \<longrightarrow>
                  status =
                    (let percentage = float64_div (float64_of_int toBeUsed)
                                        (float64_of_int (QuotaBytesTotal about))
                     in if percentage < float64_round (1 / 2) then Barely
                        else if percentage < float64_round (4 / 5) then HalfwayExceeded
                        else AlmostExceeded))
            \<and> (0 \<le> toBeUsed \<and> toBeUsed < QuotaBytesTotal about
                 \<and> QuotaBytesTotal about < 2 ^ 53 \<longrightarrow>
                  status =
                    (if 2 * toBeUsed < QuotaBytesTotal about then Barely
                     else if 5 * toBeUsed < 4 * QuotaBytesTotal about then HalfwayExceeded
                     else AlmostExceeded)))"
    if q: "0 \<le> query" and t: "1 \<le> QuotaBytesTotal about"
  proof -
    define u where "u = int64_add query (QuotaBytesUsed about)"
    define p where "p = float64_div (float64_of_int u) (float64_of_int (QuotaBytesTotal about))"
    have S: "QuotaStatus (Inr about) query =
       (if QuotaBytesTotal about \<le> u then (Exceeded, None)
        else if p < float64_round (1 / 2) then (Barely, None)
        else if p < float64_round (4 / 5) then (HalfwayExceeded, None)
        else (AlmostExceeded, None))"
      using q t by (simp add: QuotaStatus_def Let_def u_def p_def)
    have E: "0 \<le> u \<and> u < QuotaBytesTotal about \<and> QuotaBytesTotal about < 2 ^ 53 \<longrightarrow>
       (p < float64_round (1 / 2)) = (2 * u < QuotaBytesTotal about)
       \<and> (p < float64_round (4 / 5)) = (5 * u < 4 * QuotaBytesTotal about)"
      unfolding p_def using percentage_exact [of u "QuotaBytesTotal about"] by simp
    show ?thesis
      unfolding Let_def u_def [symmetric] p_def [symmetric] S
      using E by auto
  qed
  show ?thesis using 1 2 3 4 by blast
qed

theorem QuotaStatus_classifies_witness:
  "QuotaStatus (Inr ex_about) (- 1) = (Unknown, None)
   \<and> QuotaStatus (Inl (ErrAbout ''unreachable'')) 1 = (Unknown, Some (ErrAbout ''unreachable''))
   \<and> QuotaStatus (Inr (ex_about\<lparr>QuotaBytesTotal := 0\<rparr>)) 1 = (Unknown, Some ErrQuotaBytesTotal)
   \<and> int64_add 1 (QuotaBytesUsed ex_about) = 7
   \<and> fst (QuotaStatus (Inr ex_about) 1) = HalfwayExceeded"
proof -
  have h: "(0::int) \<le> 1 \<and> 1 \<le> QuotaBytesTotal ex_about"
    by (simp add: ex_about_def)
  have u: "int64_add 1 (QuotaBytesUsed ex_about) = 7"
    by (simp add: ex_about_def int64_add_def)
  have b: "(0::int) \<le> 7 \<and> 7 < QuotaBytesTotal ex_about \<and> QuotaBytesTotal ex_about < 2 ^ 53"
    by (simp add: ex_about_def)
  note T = QuotaStatus_classifies [of 1 "Inr ex_about" "ErrAbout ''unreachable''" ex_about]
  from T h
  have "0 \<le> int64_add 1 (QuotaBytesUsed ex_about)
          \<and> int64_add 1 (QuotaBytesUsed ex_about) < QuotaBytesTotal ex_about
          \<and> QuotaBytesTotal ex_about < 2 ^ 53 \<longrightarrow>
        fst (QuotaStatus (Inr ex_about) 1) =
          (if 2 * int64_add 1 (QuotaBytesUsed ex_about) < QuotaBytesTotal ex_about then Barely
           else if 5 * int64_add 1 (QuotaBytesUsed ex_about) < 4 * QuotaBytesTotal ex_about
           then HalfwayExceeded else AlmostExceeded)"
    unfolding Let_def by blast
  with b have "fst (QuotaStatus (Inr ex_about) 1) =
          (if 2 * 7 < QuotaBytesTotal ex_about then Barely
           else if 5 * 7 < 4 * QuotaBytesTotal ex_about
           then HalfwayExceeded else AlmostExceeded)"
    unfolding u by blast
  then have s: "fst (QuotaStatus (Inr ex_about) 1) = HalfwayExceeded"
    by (simp add: ex_about_def)
  have e: "QuotaStatus (Inl (ErrAbout ''unreachable'')) 1 = (Unknown, Some (ErrAbout ''unreachable''))"
    using T by simp
  have n: "QuotaStatus (Inr ex_about) (- 1) = (Unknown, None)"
    using QuotaStatus_classifies [of "- 1" "Inr ex_about" "ErrAbout ''unreachable''" ex_about]
    by simp
  have z: "QuotaStatus (Inr (ex_about\<lparr>QuotaBytesTotal := 0\<rparr>)) 1 = (Unknown, Some ErrQuotaBytesTotal)"
    using QuotaStatus_classifies [of 1 "Inr ex_about" "ErrAbout ''unreachable''"
        "ex_about\<lparr>QuotaBytesTotal := 0\<rparr>"]
    by simp
  from n e z u s show ?thesis by blast
qed

text \<open>A negative query on a quota of 10 bytes with 6 in use: the status is \<open>Unknown\<close>.\<close>

theorem QuotaStatus_negative_query_counterexample:
  "\<not> QuotaBytesTotal ex_about < 1
   \<and> int64_add (- 1) (QuotaBytesUsed ex_about) = 5
   \<and> QuotaStatus (Inr ex_about) (- 1) = (Unknown, None)"
  by (simp add: ex_about_def int64_add_def QuotaStatus_def)

text \<open>
  Beyond 53 bits the conversions round: \<open>2 ^ 53\<close> bytes against a total of
  \<open>2 ^ 54 + 1\<close> is less than one half, and the quotient of the two \<open>float64\<close>
  values is exactly \<open>0.5\<close>.
\<close>

lemma QuotaStatus_beyond_53_bits:
  "2 * 9007199254740992 < QuotaBytesTotal ex_about_huge
   \<and> QuotaStatus (Inr ex_about_huge) 9007199254740992 = (HalfwayExceeded, None)"
  by code_simp

end
